(* ===== verification/Prelude.thy ===== *)
theory Prelude
  imports Main
begin

text \<open>
  Shared vocabulary of the development. An RxJS observable delivers a sequence of
  notifications: any number of \<open>next\<close> values, then at most one terminal \<open>error\<close> or
  \<open>complete\<close> (the Observable grammar). A subscriber reacting to its sources is a
  transducer: from its state and one input notification it computes its new state and the
  notifications it emits, in order. \<open>run\<close> feeds a list of inputs through a transducer;
  \<open>pipe\<close> is the composition \<open>source.pipe(f, g)\<close> of two operators, and \<open>lmap\<close> routes
  an input into one port of a transducer with several sources (forkJoin, race, switchMap).
\<close>

named_theorems rx_step "one-step equations of the operator models"

section \<open>Notifications and the Observable grammar\<close>

datatype ('a, 'x) ntf = Next 'a | Error 'x | Complete

fun is_terminal :: "('a, 'x) ntf \<Rightarrow> bool" where
  "is_terminal (Next v) = False"
| "is_terminal (Error x) = True"
| "is_terminal Complete = True"

text \<open>What a stopped subscriber lets through: everything up to the first terminal.\<close>

fun upto_terminal :: "('a, 'x) ntf list \<Rightarrow> ('a, 'x) ntf list" where
  "upto_terminal [] = []"
| "upto_terminal (n # ns) = (if is_terminal n then [n] else n # upto_terminal ns)"

text \<open>The Observable grammar \<open>Next* (Error | Complete)?\<close>.\<close>

fun wf_ntfs :: "('a, 'x) ntf list \<Rightarrow> bool" where
  "wf_ntfs [] = True"
| "wf_ntfs (n # ns) = (if is_terminal n then ns = [] else wf_ntfs ns)"

definition terminated :: "('a, 'x) ntf list \<Rightarrow> bool" where
  "terminated ns = list_ex is_terminal ns"

section \<open>Transducers\<close>

type_synonym ('s, 'i, 'o) transducer = "'s \<Rightarrow> 'i \<Rightarrow> 's \<times> 'o list"

fun run :: "('s, 'i, 'o) transducer \<Rightarrow> 's \<Rightarrow> 'i list \<Rightarrow> 's \<times> 'o list" where
  "run f s [] = (s, [])"
| "run f s (i # is') =
     (let (s1, o1) = f s i; (s2, o2) = run f s1 is' in (s2, o1 @ o2))"

abbreviation outs :: "('s, 'i, 'o) transducer \<Rightarrow> 's \<Rightarrow> 'i list \<Rightarrow> 'o list" where
  "outs f s is' \<equiv> snd (run f s is')"

abbreviation final :: "('s, 'i, 'o) transducer \<Rightarrow> 's \<Rightarrow> 'i list \<Rightarrow> 's" where
  "final f s is' \<equiv> fst (run f s is')"

definition pipe :: "('s, 'i, 'm) transducer \<Rightarrow> ('t, 'm, 'o) transducer \<Rightarrow> ('s \<times> 't, 'i, 'o) transducer" where
  "pipe f g = (\<lambda>(s, t) i. let (s', ms) = f s i; (t', os) = run g t ms in ((s', t'), os))"

definition lmap :: "('i \<Rightarrow> 'j) \<Rightarrow> ('s, 'j, 'o) transducer \<Rightarrow> ('s, 'i, 'o) transducer" where
  "lmap h g = (\<lambda>s i. g s (h i))"

text \<open>The first defined of two optional values.\<close>

fun orelse :: "'a option \<Rightarrow> 'a option \<Rightarrow> 'a option" where
  "orelse (Some a) b = Some a"
| "orelse None b = b"

section \<open>Simulation\<close>

text \<open>A transducer \<open>f\<close> implements a transducer \<open>g\<close> under the abstraction \<open>\<alpha>\<close> when,
  from every state satisfying the invariant \<open>I\<close>, one step of \<open>f\<close> keeps \<open>I\<close>, emits
  what \<open>g\<close> emits from the abstract state, and lands on the abstract successor. Then whole
  runs agree.\<close>

definition simulates :: "('s \<Rightarrow> bool) \<Rightarrow> ('s \<Rightarrow> 't) \<Rightarrow> ('s, 'i, 'o) transducer \<Rightarrow> ('t, 'i, 'o) transducer \<Rightarrow> bool" where
  "simulates I \<alpha> f g =
     (\<forall>s i. I s \<longrightarrow> I (fst (f s i)) \<and> \<alpha> (fst (f s i)) = fst (g (\<alpha> s) i) \<and> snd (f s i) = snd (g (\<alpha> s) i))"

section \<open>Lemmas on the grammar\<close>

lemma wf_ntfs_upto_terminal [simp]: "wf_ntfs (upto_terminal ns)"
  by (induction ns) auto

lemma upto_terminal_wf [simp]: "wf_ntfs ns \<Longrightarrow> upto_terminal ns = ns"
  by (induction ns) (auto split: if_splits)

lemma terminated_simps [simp]:
  "\<not> terminated []"
  "terminated (n # ns) \<longleftrightarrow> is_terminal n \<or> terminated ns"
  "terminated (ns @ ms) \<longleftrightarrow> terminated ns \<or> terminated ms"
  by (auto simp: terminated_def)

lemma upto_terminal_not_terminated [simp]: "\<not> terminated ns \<Longrightarrow> upto_terminal ns = ns"
  by (induction ns) auto

lemma wf_ntfs_not_terminated: "\<not> terminated ns \<Longrightarrow> wf_ntfs ns"
  by (induction ns) auto

lemma set_upto_terminal: "set (upto_terminal ns) \<subseteq> set ns"
  by (induction ns) auto

lemma terminated_upto_terminal [simp]: "terminated (upto_terminal ns) = terminated ns"
  by (induction ns) auto

lemma wf_ntfs_append:
  "wf_ntfs (ns @ ms) \<longleftrightarrow> wf_ntfs ns \<and> (ms = [] \<or> (\<not> terminated ns \<and> wf_ntfs ms))"
  by (induction ns) auto

section \<open>Lemmas on runs\<close>

lemma run_Cons_eq [simp]:
  "run f s (i # is') = (final f (fst (f s i)) is', snd (f s i) @ outs f (fst (f s i)) is')"
  by (simp add: split_def Let_def)

declare run.simps(2) [simp del]

lemma run_append:
  "run f s (xs @ ys) = (final f (final f s xs) ys, outs f s xs @ outs f (final f s xs) ys)"
  by (induction xs arbitrary: s) simp_all

lemma run_single [simp]: "run f s [i] = f s i"
  by simp

lemma run_silent:
  assumes "\<And>i. i \<in> set xs \<Longrightarrow> f s i = (s, [])"
  shows "run f s xs = (s, [])"
  using assms by (induction xs) auto

lemma pipe_apply:
  "pipe f g (s, t) i = ((fst (f s i), final g t (snd (f s i))), outs g t (snd (f s i)))"
  by (simp add: pipe_def split_def Let_def)

lemma lmap_apply [simp]: "lmap h g s i = g s (h i)"
  by (simp add: lmap_def)

lemma run_filter_silent:
  assumes "\<And>s i. P i \<Longrightarrow> f s i = (s, [])"
  shows "run f s xs = run f s (filter (\<lambda>i. \<not> P i) xs)"
  by (induction xs arbitrary: s) (auto simp: assms)

section \<open>Lemmas on simulation\<close>

lemma simulatesI:
  "(\<And>s i. I s \<Longrightarrow> I (fst (f s i)) \<and> \<alpha> (fst (f s i)) = fst (g (\<alpha> s) i) \<and> snd (f s i) = snd (g (\<alpha> s) i))
   \<Longrightarrow> simulates I \<alpha> f g"
  by (simp add: simulates_def)

lemma run_simulation:
  assumes "simulates I \<alpha> f g" and "I s"
  shows "outs f s xs = outs g (\<alpha> s) xs \<and> \<alpha> (final f s xs) = final g (\<alpha> s) xs \<and> I (final f s xs)"
  using assms(2)
proof (induction xs arbitrary: s)
  case Nil
  then show ?case by simp
next
  case (Cons i xs)
  from assms(1) Cons.prems have step: "I (fst (f s i))" "\<alpha> (fst (f s i)) = fst (g (\<alpha> s) i)"
    "snd (f s i) = snd (g (\<alpha> s) i)"
    by (simp_all add: simulates_def)
  with Cons.IH [of "fst (f s i)"] show ?case by simp
qed

end
