(* ===== verification/Actions.thy ===== *)
theory Actions
  imports Prelude
begin

text \<open>
  The action types of \<open>src/src/aggregate/aggregate.ts\<close> (lines 9--11) and the correlation
  predicate \<open>filterAction\<close> (lines 23--26). A TypeScript intersection type
  \<open>Action & {...}\<close> is a record extending the record of \<open>Action\<close>; an optional
  property \<open>p?: T\<close> is a field of type \<open>T option\<close>, \<open>None\<close> being \<open>undefined\<close>.
  Every operation is generic in the record extension (\<open>'a AggregatableAction_scheme\<close>),
  as \<open>aggregate\<close> is generic in \<open>T\<close>, \<open>TAction1\<close>, \<open>TAction2\<close> and \<open>TFailAction\<close>.
  JavaScript's \<open>===\<close> on \<open>string | undefined\<close> is equality of \<open>string option\<close>; in
  particular \<open>undefined === undefined\<close> holds.
\<close>

record CorrelationParams =
  correlationId :: "string option"
  parentActionType :: "string option"

record AggregatableAction =
  type :: string
  correlationParams :: "CorrelationParams option"

record 'e FailActionForAggregation = AggregatableAction +
  error :: "'e option"

text \<open>
  \<open>t.correlationParams && sourceAction.correlationParams && idEq && typeEq\<close>: the
  conjunction short-circuits on a missing parameter object of either side.
\<close>

definition filterAction :: "'a AggregatableAction_scheme \<Rightarrow> 'b AggregatableAction_scheme \<Rightarrow> bool" where
  "filterAction sourceAction t =
     (case correlationParams t of
        None \<Rightarrow> False
      | Some tp \<Rightarrow>
          (case correlationParams sourceAction of
             None \<Rightarrow> False
           | Some sp \<Rightarrow>
               correlationId tp = correlationId sp \<and> parentActionType tp = Some (type sourceAction)))"

text \<open>
  The correlation key of a request (\<open>None\<close>: no parameter object; \<open>Some None\<close>: a
  parameter object without \<open>correlationId\<close>) and the correlation descriptor of a
  response, (key, originating request tag), as the code reads them.
\<close>

definition correlation_key :: "'a AggregatableAction_scheme \<Rightarrow> string option option" where
  "correlation_key r = map_option correlationId (correlationParams r)"

definition descriptor :: "'a AggregatableAction_scheme \<Rightarrow> (string option \<times> string option) option" where
  "descriptor t = map_option (\<lambda>p. (correlationId p, parentActionType p)) (correlationParams t)"

subsection \<open>Characterisation of the predicate\<close>

lemma filterAction_no_params [simp]:
  "correlationParams t = None \<Longrightarrow> \<not> filterAction r t"
  "correlationParams r = None \<Longrightarrow> \<not> filterAction r t"
  by (simp_all add: filterAction_def split: option.splits)

subsection \<open>Properties of the predicate\<close>

text \<open>Claim C9 (functional): filterAction(sourceAction, t) holds exactly when the request
  carries correlation parameters, with key k, and the response's descriptor is
  (k, the request's type): same correlation id (compared with ===) and parentActionType
  equal to the request's type.\<close>

theorem filterAction_descriptor:
  "filterAction r t \<longleftrightarrow>
     (\<exists>k. correlation_key r = Some k \<and> descriptor t = Some (k, Some (type r)))"
  by (auto simp: filterAction_def correlation_key_def descriptor_def split: option.splits)

theorem filterAction_descriptor_witness:
  "filterAction
     \<lparr>type = ''LOAD'', correlationParams = Some \<lparr>correlationId = Some ''abc'', parentActionType = None\<rparr>\<rparr>
     \<lparr>type = ''LOAD_A_DONE'', correlationParams = Some \<lparr>correlationId = Some ''abc'', parentActionType = Some ''LOAD''\<rparr>\<rparr>"
  using filterAction_descriptor [of
     "\<lparr>type = ''LOAD'', correlationParams = Some \<lparr>correlationId = Some ''abc'', parentActionType = None\<rparr>\<rparr>"
     "\<lparr>type = ''LOAD_A_DONE'', correlationParams = Some \<lparr>correlationId = Some ''abc'', parentActionType = Some ''LOAD''\<rparr>\<rparr>"]
  by (simp add: correlation_key_def descriptor_def)

text \<open>Claim C10 (safety): an action without a correlationParams object never correlates,
  on either side: the predicate fails closed when the parameter object is absent.\<close>

theorem filterAction_fail_closed:
  "correlationParams t = None \<or> correlationParams r = None \<Longrightarrow> \<not> filterAction r t"
  by (auto simp: filterAction_def split: option.splits)

theorem filterAction_fail_closed_witness:
  "\<not> filterAction
     \<lparr>type = ''LOAD'', correlationParams = None\<rparr>
     \<lparr>type = ''LOAD_A_DONE'', correlationParams = Some \<lparr>correlationId = None, parentActionType = Some ''LOAD''\<rparr>\<rparr>"
  by (rule filterAction_fail_closed) simp

text \<open>Claim C11 (safety): a request and a response whose parameter objects both lack a
  correlationId correlate whenever the parent type matches, because
  undefined === undefined: the predicate fails open on a missing correlation id, so two
  such requests of the same type cannot be told apart.\<close>

theorem filterAction_missing_ids:
  assumes "correlationParams r = Some \<lparr>correlationId = None, parentActionType = p\<rparr>"
    and "correlationParams t = Some \<lparr>correlationId = None, parentActionType = Some (type r)\<rparr>"
  shows "filterAction r t"
  using assms by (simp add: filterAction_def)

theorem filterAction_missing_ids_witness:
  "filterAction
     \<lparr>type = ''LOAD'', correlationParams = Some \<lparr>correlationId = None, parentActionType = None\<rparr>\<rparr>
     \<lparr>type = ''LOAD_A_DONE'', correlationParams = Some \<lparr>correlationId = None, parentActionType = Some ''LOAD''\<rparr>\<rparr>"
  by (rule filterAction_missing_ids) simp_all

end
