(* ===== verification/Rx.thy ===== *)
theory Rx
  imports Prelude
begin

text \<open>
  The RxJS 5.5 operators that \<open>aggregate\<close> calls (\<open>filter\<close>, \<open>first\<close>, \<open>switchMap\<close>,
  \<open>forkJoin\<close>, \<open>race\<close>, \<open>_throw\<close>), each as a transducer that follows the library's
  subscriber class: its \<open>_next\<close>, \<open>_error\<close>, \<open>_complete\<close> and, for operators with inner
  subscriptions, \<open>notifyNext\<close>, \<open>notifyError\<close>, \<open>notifyComplete\<close>. The library is not
  part of the repository; these definitions are modelled from its documented behaviour.
  \<open>subscriber\<close> models the \<open>isStopped\<close> flag of the \<open>Subscriber\<close> base class: once a
  subscriber has emitted \<open>error\<close> or \<open>complete\<close> it unsubscribes from its sources and
  ignores everything that still arrives.
\<close>

text \<open>
  Values thrown along the error channel: RxJS's \<open>EmptyError\<close> (raised by \<open>first()\<close>
  when its source completes without a value) or any thrown value; \<open>Thrown None\<close> is a
  thrown \<open>undefined\<close>.
\<close>

datatype 'e rx_error = EmptyError | Thrown "'e option"

type_synonym 's sub = "bool \<times> 's"

definition subscriber :: "('s, 'i, ('a, 'x) ntf) transducer \<Rightarrow> ('s sub, 'i, ('a, 'x) ntf) transducer" where
  "subscriber f = (\<lambda>(stopped, s) i.
     if stopped then ((True, s), [])
     else let (s', ns) = f s i in ((terminated ns, s'), upto_terminal ns))"

section \<open>filter and first\<close>

fun filter_op :: "('a \<Rightarrow> bool) \<Rightarrow> (unit, ('a, 'x) ntf, ('a, 'x) ntf) transducer" where
  "filter_op p u (Next v) = (u, if p v then [Next v] else [])"
| "filter_op p u (Error x) = (u, [Error x])"
| "filter_op p u Complete = (u, [Complete])"

text \<open>\<open>first()\<close> without predicate or default: \<open>_emitFinal\<close> on the first value,
  \<open>EmptyError\<close> on completion without one.\<close>

fun first_op :: "(unit, ('a, 'e rx_error) ntf, ('a, 'e rx_error) ntf) transducer" where
  "first_op u (Next v) = (u, [Next v, Complete])"
| "first_op u (Error x) = (u, [Error x])"
| "first_op u Complete = (u, [Error EmptyError])"

section \<open>forkJoin of two sources\<close>

text \<open>\<open>ForkJoinSubscriber\<close>: the last value of each source, the number of sources that
  completed; it emits the array of values when all have completed, each with a value,
  and completes at once when a source completes without one.\<close>

record ('a, 'b) fj_state =
  fj_v1 :: "'a option"
  fj_v2 :: "'b option"
  fj_c1 :: bool
  fj_c2 :: bool

definition fj_init :: "('a, 'b) fj_state" where
  "fj_init = \<lparr>fj_v1 = None, fj_v2 = None, fj_c1 = False, fj_c2 = False\<rparr>"

definition fj_emit :: "('a, 'b) fj_state \<Rightarrow> ('a \<times> 'b, 'x) ntf list" where
  "fj_emit st =
     (if fj_c1 st \<and> fj_c2 st
      then (case (fj_v1 st, fj_v2 st) of (Some a, Some b) \<Rightarrow> [Next (a, b)] | _ \<Rightarrow> []) @ [Complete]
      else [])"

fun forkJoin_op :: "(('a, 'b) fj_state, ('a, 'x) ntf + ('b, 'x) ntf, ('a \<times> 'b, 'x) ntf) transducer" where
  "forkJoin_op st (Inl (Next a)) = (st\<lparr>fj_v1 := Some a\<rparr>, [])"
| "forkJoin_op st (Inr (Next b)) = (st\<lparr>fj_v2 := Some b\<rparr>, [])"
| "forkJoin_op st (Inl (Error x)) = (st, [Error x])"
| "forkJoin_op st (Inr (Error x)) = (st, [Error x])"
| "forkJoin_op st (Inl Complete) =
     (if fj_v1 st = None then (st, [Complete])
      else let st' = st\<lparr>fj_c1 := True\<rparr> in (st', fj_emit st'))"
| "forkJoin_op st (Inr Complete) =
     (if fj_v2 st = None then (st, [Complete])
      else let st' = st\<lparr>fj_c2 := True\<rparr> in (st', fj_emit st'))"

section \<open>race of two sources\<close>

text \<open>\<open>RaceSubscriber\<close>: the first source to deliver a value wins (\<open>hasFirst\<close>) and the
  other subscription is unsubscribed; \<open>notifyError\<close> and \<open>notifyComplete\<close> are those of
  \<open>OuterSubscriber\<close> and forward from any source still subscribed. The state is the
  index of the winner.\<close>

definition race_notify :: "nat \<Rightarrow> nat option \<Rightarrow> ('a, 'x) ntf \<Rightarrow> nat option \<times> ('a, 'x) ntf list" where
  "race_notify i w n =
     (case w of
        Some j \<Rightarrow> (w, if i = j then [n] else [])
      | None \<Rightarrow> (case n of Next v \<Rightarrow> (Some i, [n]) | _ \<Rightarrow> (None, [n])))"

fun race_op :: "(nat option, ('a, 'x) ntf + ('a, 'x) ntf, ('a, 'x) ntf) transducer" where
  "race_op w (Inl n) = race_notify 0 w n"
| "race_op w (Inr n) = race_notify 1 w n"

section \<open>switchMap\<close>

text \<open>\<open>SwitchMapSubscriber\<close>: each outer value is projected to an inner observable, the
  previous inner subscription is unsubscribed and the new one subscribed. An inner
  observable is given by its state after subscription together with what it emits
  synchronously on subscription (\<open>project\<close>), and by its step on the inputs it listens to
  (\<open>istep\<close>). Inner values and errors are forwarded; inner completion clears the inner
  subscription and completes the output if the outer source has completed (\<open>isStopped\<close>).
  Outer input is \<open>Inl\<close>, input of the inner observable \<open>Inr\<close>.\<close>

record 'w sm_state =
  sm_inner :: "'w option"
  sm_outer_done :: bool

definition sm_init :: "'w sm_state" where
  "sm_init = \<lparr>sm_inner = None, sm_outer_done = False\<rparr>"

fun sm_forward :: "'w sm_state \<Rightarrow> ('o, 'x) ntf list \<Rightarrow> 'w sm_state \<times> ('o, 'x) ntf list" where
  "sm_forward st [] = (st, [])"
| "sm_forward st (Next v # ns) = (let (st', os) = sm_forward st ns in (st', Next v # os))"
| "sm_forward st (Error x # ns) = (st, [Error x])"
| "sm_forward st (Complete # ns) =
     (let st' = st\<lparr>sm_inner := None\<rparr> in
      if sm_outer_done st then (st', [Complete]) else sm_forward st' ns)"

fun switchMap_op ::
  "('s \<Rightarrow> 'w \<times> ('o, 'x) ntf list) \<Rightarrow> ('w, 'c, ('o, 'x) ntf) transducer \<Rightarrow>
   ('w sm_state, ('s, 'x) ntf + 'c, ('o, 'x) ntf) transducer" where
  "switchMap_op project istep st (Inl (Next s)) =
     (if sm_outer_done st then (st, [])
      else let (w, ns) = project s in sm_forward (st\<lparr>sm_inner := Some w\<rparr>) ns)"
| "switchMap_op project istep st (Inl (Error x)) =
     (if sm_outer_done st then (st, []) else (st, [Error x]))"
| "switchMap_op project istep st (Inl Complete) =
     (if sm_outer_done st then (st, [])
      else (st\<lparr>sm_outer_done := True\<rparr>, if sm_inner st = None then [Complete] else []))"
| "switchMap_op project istep st (Inr c) =
     (case sm_inner st of
        None \<Rightarrow> (st, [])
      | Some w \<Rightarrow> let (w', ns) = istep w c in sm_forward (st\<lparr>sm_inner := Some w'\<rparr>) ns)"

section \<open>_throw\<close>

text \<open>\<open>_throw(e)\<close> emits \<open>error(e)\<close> synchronously on subscription and listens to nothing.\<close>

definition throwError :: "'x \<Rightarrow> unit \<times> ('o, 'x) ntf list" where
  "throwError x = ((), [Error x])"

definition throwError_step :: "(unit, 'c, ('o, 'x) ntf) transducer" where
  "throwError_step u c = (u, [])"

section \<open>Abstraction maps\<close>

text \<open>Abstraction of a switchMap state through an abstraction of its inner state.\<close>

definition sm_map :: "('w \<Rightarrow> 'v) \<Rightarrow> 'w sm_state \<Rightarrow> 'v sm_state" where
  "sm_map \<alpha> st = \<lparr>sm_inner = map_option \<alpha> (sm_inner st), sm_outer_done = sm_outer_done st\<rparr>"

section \<open>The stop guard\<close>

lemma subscriber_stopped [simp, rx_step]: "subscriber f (True, s) i = ((True, s), [])"
  by (simp add: subscriber_def)

lemma subscriber_live [simp, rx_step]:
  "subscriber f (False, s) i = ((terminated (snd (f s i)), fst (f s i)), upto_terminal (snd (f s i)))"
  by (simp add: subscriber_def split_def Let_def)

lemma run_subscriber_stopped [simp]: "run (subscriber f) (True, s) xs = ((True, s), [])"
  by (rule run_silent) simp

text \<open>Whatever the operator computes, what a subscriber emits obeys the Observable grammar,
  and it is stopped exactly when it has emitted a terminal notification.\<close>

lemma subscriber_run:
  "wf_ntfs (outs (subscriber f) st xs) \<and>
   fst (final (subscriber f) st xs) = (fst st \<or> terminated (outs (subscriber f) st xs))"
proof (induction xs arbitrary: st)
  case Nil
  then show ?case by simp
next
  case (Cons i xs)
  obtain b s where st: "st = (b, s)" by (cases st)
  show ?case
  proof (cases b)
    case True
    with st show ?thesis by simp
  next
    case False
    obtain s' ns where f: "f s i = (s', ns)" by (cases "f s i")
    show ?thesis
    proof (cases "terminated ns")
      case True
      with st False f show ?thesis by simp
    next
      case nt: False
      from Cons.IH [of "(False, s')"] nt st False f show ?thesis
        by (simp add: wf_ntfs_append wf_ntfs_not_terminated)
    qed
  qed
qed

lemma subscriber_wf: "wf_ntfs (outs (subscriber f) st xs)"
  using subscriber_run by blast

lemma subscriber_silent_after_terminal:
  "terminated (outs (subscriber f) st xs) \<Longrightarrow> outs (subscriber f) (final (subscriber f) st xs) ys = []"
proof -
  assume "terminated (outs (subscriber f) st xs)"
  then have "fst (final (subscriber f) st xs)" using subscriber_run by blast
  then show ?thesis by (cases "final (subscriber f) st xs") simp
qed

section \<open>filter then first: the first matching value\<close>

lemma filter_first_live [rx_step]:
  "pipe (subscriber (filter_op p)) (subscriber first_op) ((False, u), (False, v)) n =
     (case n of
        Next a \<Rightarrow> if p a then (((False, u), (True, v)), [Next a, Complete])
                  else (((False, u), (False, v)), [])
      | Error x \<Rightarrow> (((True, u), (True, v)), [Error x])
      | Complete \<Rightarrow> (((True, u), (True, v)), [Error EmptyError]))"
  by (cases n) (simp_all add: pipe_apply)

lemma filter_first_done [rx_step]:
  "pipe (subscriber (filter_op p)) (subscriber first_op) ((b, u), (True, v)) n =
     (((b \<or> is_terminal n, u), (True, v)), [])"
  by (cases b; cases n) (simp_all add: pipe_apply)

section \<open>Simulation through the stop guard and switchMap\<close>

lemma sm_forward_map:
  "sm_forward (sm_map \<alpha> st) ns = (sm_map \<alpha> (fst (sm_forward st ns)), snd (sm_forward st ns))"
  by (induction st ns rule: sm_forward.induct) (simp_all add: sm_map_def split_def Let_def)

lemma sm_forward_inner:
  "sm_inner (fst (sm_forward st ns)) = sm_inner st \<or> sm_inner (fst (sm_forward st ns)) = None"
  by (induction st ns rule: sm_forward.induct) (auto simp: split_def Let_def)

lemma sm_forward_outer_done [simp]:
  "sm_outer_done (fst (sm_forward st ns)) = sm_outer_done st"
  by (induction st ns rule: sm_forward.induct) (auto simp: split_def Let_def)

lemma sm_map_update [simp]:
  "(sm_map \<alpha> st)\<lparr>sm_inner := Some (\<alpha> w)\<rparr> = sm_map \<alpha> (st\<lparr>sm_inner := Some w\<rparr>)"
  "(sm_map \<alpha> st)\<lparr>sm_outer_done := b\<rparr> = sm_map \<alpha> (st\<lparr>sm_outer_done := b\<rparr>)"
  "sm_inner (sm_map \<alpha> st) = map_option \<alpha> (sm_inner st)"
  "sm_outer_done (sm_map \<alpha> st) = sm_outer_done st"
  by (simp_all add: sm_map_def)

lemma switchMap_simulates:
  assumes sim: "simulates I \<alpha> istep istep'"
    and proj: "\<And>s. I (fst (p s)) \<and> \<alpha> (fst (p s)) = fst (p' s) \<and> snd (p s) = snd (p' s)"
  shows "simulates (\<lambda>st. pred_option I (sm_inner st)) (sm_map \<alpha>) (switchMap_op p istep) (switchMap_op p' istep')"
proof -
  have keep: "pred_option I (sm_inner (fst (sm_forward st' ns)))" if "pred_option I (sm_inner st')" for st' ns
    using sm_forward_inner [of st' ns] that by auto
  show ?thesis
  apply (rule simulatesI)
  subgoal premises inv for st i
  proof (cases i)
    case (Inl n)
    then show ?thesis
    proof (cases n)
      case (Next s)
      from proj [of s] have "p' s = (\<alpha> (fst (p s)), snd (p s))" "I (fst (p s))"
        by (metis prod.collapse)+
      moreover have "pred_option I (sm_inner (fst (sm_forward (st\<lparr>sm_inner := Some (fst (p s))\<rparr>) (snd (p s)))))"
        using keep [of "st\<lparr>sm_inner := Some (fst (p s))\<rparr>" "snd (p s)"] \<open>I (fst (p s))\<close> by simp
      ultimately show ?thesis using Inl Next inv
        by (auto simp: split_def Let_def sm_forward_map)
    qed (use Inl inv in \<open>auto simp: sm_map_def\<close>)
  next
    case (Inr c)
    show ?thesis
    proof (cases "sm_inner st")
      case None
      with Inr show ?thesis by (simp add: sm_map_def)
    next
      case (Some w)
      with inv have "I w" by simp
      with sim have "I (fst (istep w c))" "istep' (\<alpha> w) c = (\<alpha> (fst (istep w c)), snd (istep w c))"
        by (auto simp: simulates_def intro: prod_eqI)
      moreover have "pred_option I (sm_inner (fst (sm_forward (st\<lparr>sm_inner := Some (fst (istep w c))\<rparr>) (snd (istep w c)))))"
        using keep [of "st\<lparr>sm_inner := Some (fst (istep w c))\<rparr>" "snd (istep w c)"] \<open>I (fst (istep w c))\<close> by simp
      ultimately show ?thesis using Inr Some
        by (auto simp: split_def Let_def sm_forward_map)
    qed
  qed
  done
qed

lemma subscriber_simulates:
  assumes "simulates I \<alpha> f g"
  shows "simulates (\<lambda>st. I (snd st)) (map_prod id \<alpha>) (subscriber f) (subscriber g)"
  apply (rule simulatesI)
  subgoal premises inv for st i
  proof (cases st)
    case (Pair b s)
    with assms inv show ?thesis by (cases b) (simp_all add: simulates_def)
  qed
  done

section \<open>What switchMap forwards\<close>

lemma sm_forward_next: "Next v \<in> set (snd (sm_forward st ns)) \<Longrightarrow> Next v \<in> set ns"
  by (induction st ns rule: sm_forward.induct) (auto simp: split_def Let_def split: if_splits)

end
