(* ===== verification/Window.thy ===== *)
theory Window
  imports Actions Rx
begin

text \<open>
  The matching window of one request: \<open>getAggregatedActions(sourceAction)\<close>
  (\<open>aggregate.ts\<close> lines 28--56). Its state holds the captured \<open>sourceAction\<close> and the
  subscriber states of \<open>a1$\<close>, \<open>a2$\<close> (filter, first), \<open>f$\<close> (filter, first,
  switchMap to \<open>_throw\<close>), \<open>forkJoin([a1$, a2$])\<close> and the outer \<open>race\<close>. An input is
  one notification on one of the shared streams \<open>action1$\<close>, \<open>action2$\<close>,
  \<open>failAction$\<close>; the interleaving of the three streams is the order of the input list.
  \<open>join_spec\<close> is the contract of a window (join the first correlated response of each
  channel, fail fast on the first correlated failure); \<open>window_refines\<close> shows that the
  operator composition implements it.
\<close>

datatype ('a1, 'a2, 'f, 'x) chan =
  Ch1 "('a1, 'x) ntf" | Ch2 "('a2, 'x) ntf" | ChF "('f, 'x) ntf"

type_synonym first_state = "unit sub \<times> unit sub"

record ('s, 'a1, 'a2) window =
  w_source :: 's
  w_a1 :: first_state
  w_a2 :: first_state
  w_f :: "first_state \<times> unit sm_state sub"
  w_fj :: "('a1, 'a2) fj_state sub"
  w_race :: "nat option sub"

section \<open>The operator pipelines of one window\<close>

text \<open>\<open>a1$\<close> and \<open>a2$\<close>: \<open>actionN$.pipe(filter(a => filterAction(sourceAction, a)), first())\<close>.\<close>

definition a_pipe ::
  "'s AggregatableAction_scheme \<Rightarrow>
   (first_state, ('a AggregatableAction_scheme, 'e rx_error) ntf, ('a AggregatableAction_scheme, 'e rx_error) ntf) transducer" where
  "a_pipe sourceAction = pipe (subscriber (filter_op (filterAction sourceAction))) (subscriber first_op)"

text \<open>\<open>f$\<close>: \<open>failAction$.pipe(filter(...), first(), switchMap(b => _throw(b.error)))\<close>.\<close>

definition f_pipe ::
  "'s AggregatableAction_scheme \<Rightarrow>
   (first_state \<times> unit sm_state sub, (('e, 'f) FailActionForAggregation_scheme, 'e rx_error) ntf, ('o, 'e rx_error) ntf) transducer" where
  "f_pipe sourceAction =
     pipe (pipe (subscriber (filter_op (filterAction sourceAction))) (subscriber first_op))
          (lmap Inl (subscriber (switchMap_op (\<lambda>b. throwError (Thrown (error b)))
                                   (throwError_step :: (unit, unit, _) transducer))))"

definition first_init :: first_state where
  "first_init = ((False, ()), (False, ()))"

definition window_init :: "'s \<Rightarrow> ('s, 'a1, 'a2) window" where
  "window_init r =
     \<lparr>w_source = r, w_a1 = first_init, w_a2 = first_init, w_f = (first_init, (False, sm_init)),
      w_fj = (False, fj_init), w_race = (False, None)\<rparr>"

text \<open>Subscribing to \<open>race(forkJoin([a1$, a2$]), f$)\<close> emits nothing: the streams are hot.\<close>

definition getAggregatedActions :: "'s \<Rightarrow> ('s, 'a1, 'a2) window \<times> ('o, 'x) ntf list" where
  "getAggregatedActions sourceAction = (window_init sourceAction, [])"

text \<open>One notification of a shared stream, through the pipelines, forkJoin and race.\<close>

fun window_step ::
  "(('s AggregatableAction_scheme, 'a1 AggregatableAction_scheme, 'a2 AggregatableAction_scheme) window,
    ('a1 AggregatableAction_scheme, 'a2 AggregatableAction_scheme, ('e, 'f) FailActionForAggregation_scheme, 'e rx_error) chan,
    ('a1 AggregatableAction_scheme \<times> 'a2 AggregatableAction_scheme, 'e rx_error) ntf) transducer" where
  "window_step w (Ch1 n) =
     (let (a1', ns1) = a_pipe (w_source w) (w_a1 w) n;
          (fj', ns2) = run (subscriber forkJoin_op) (w_fj w) (map Inl ns1);
          (rc', ns3) = run (subscriber race_op) (w_race w) (map Inl ns2)
      in (w\<lparr>w_a1 := a1', w_fj := fj', w_race := rc'\<rparr>, ns3))"
| "window_step w (Ch2 n) =
     (let (a2', ns1) = a_pipe (w_source w) (w_a2 w) n;
          (fj', ns2) = run (subscriber forkJoin_op) (w_fj w) (map Inr ns1);
          (rc', ns3) = run (subscriber race_op) (w_race w) (map Inl ns2)
      in (w\<lparr>w_a2 := a2', w_fj := fj', w_race := rc'\<rparr>, ns3))"
| "window_step w (ChF n) =
     (let (f', ns1) = f_pipe (w_source w) (w_f w) n;
          (rc', ns3) = run (subscriber race_op) (w_race w) (map Inr ns1)
      in (w\<lparr>w_f := f', w_race := rc'\<rparr>, ns3))"

section \<open>The contract of a window\<close>

text \<open>
  A window is open with the first correlated value seen on each success channel, or
  resolved. A correlated value on a channel still waiting is kept; when both are there
  the window emits the pair, in channel order, and completes. A correlated failure fails
  the window with the failure's \<open>error\<close>. A stream that errors or completes while the
  window still waits on it fails the window (\<open>first()\<close> raises \<open>EmptyError\<close> on
  completion). A resolved window ignores everything.
\<close>

datatype ('a1, 'a2) phase = Open "'a1 option" "'a2 option" | Resolved

fun join_spec ::
  "'s AggregatableAction_scheme \<Rightarrow>
   (('a1 AggregatableAction_scheme, 'a2 AggregatableAction_scheme) phase,
    ('a1 AggregatableAction_scheme, 'a2 AggregatableAction_scheme, ('e, 'f) FailActionForAggregation_scheme, 'e rx_error) chan,
    ('a1 AggregatableAction_scheme \<times> 'a2 AggregatableAction_scheme, 'e rx_error) ntf) transducer" where
  "join_spec r Resolved c = (Resolved, [])"
| "join_spec r (Open g1 g2) (Ch1 n) =
     (if g1 \<noteq> None then (Open g1 g2, [])
      else case n of
        Next a \<Rightarrow>
          if filterAction r a
          then (case g2 of None \<Rightarrow> (Open (Some a) None, []) | Some b \<Rightarrow> (Resolved, [Next (a, b), Complete]))
          else (Open g1 g2, [])
      | Error x \<Rightarrow> (Resolved, [Error x])
      | Complete \<Rightarrow> (Resolved, [Error EmptyError]))"
| "join_spec r (Open g1 g2) (Ch2 n) =
     (if g2 \<noteq> None then (Open g1 g2, [])
      else case n of
        Next b \<Rightarrow>
          if filterAction r b
          then (case g1 of None \<Rightarrow> (Open None (Some b), []) | Some a \<Rightarrow> (Resolved, [Next (a, b), Complete]))
          else (Open g1 g2, [])
      | Error x \<Rightarrow> (Resolved, [Error x])
      | Complete \<Rightarrow> (Resolved, [Error EmptyError]))"
| "join_spec r (Open g1 g2) (ChF n) =
     (case n of
        Next f \<Rightarrow> if filterAction r f then (Resolved, [Error (Thrown (error f))]) else (Open g1 g2, [])
      | Error x \<Rightarrow> (Resolved, [Error x])
      | Complete \<Rightarrow> (Resolved, [Error EmptyError]))"

section \<open>Invariant and abstraction of the window state\<close>

text \<open>While the race has not stopped: no winner yet, forkJoin live and holding exactly the
  values its sources delivered (a source that delivered has completed), \<open>first()\<close> of a
  channel stopped exactly when it delivered, \<open>f$\<close> untouched.\<close>

definition chan_ok :: "first_state \<Rightarrow> 'a option \<Rightarrow> bool \<Rightarrow> bool" where
  "chan_ok st g c = (case g of None \<Rightarrow> st = first_init \<and> \<not> c | Some a \<Rightarrow> snd st = (True, ()) \<and> c)"

definition window_inv :: "('s, 'a1, 'a2) window \<Rightarrow> bool" where
  "window_inv w =
     (\<not> fst (w_race w) \<longrightarrow>
        snd (w_race w) = None \<and> \<not> fst (w_fj w) \<and>
        chan_ok (w_a1 w) (fj_v1 (snd (w_fj w))) (fj_c1 (snd (w_fj w))) \<and>
        chan_ok (w_a2 w) (fj_v2 (snd (w_fj w))) (fj_c2 (snd (w_fj w))) \<and>
        (fj_v1 (snd (w_fj w)) = None \<or> fj_v2 (snd (w_fj w)) = None) \<and>
        w_f w = (first_init, (False, sm_init)))"

definition window_abs :: "('s, 'a1, 'a2) window \<Rightarrow> ('a1, 'a2) phase" where
  "window_abs w =
     (if fst (w_race w) then Resolved else Open (fj_v1 (snd (w_fj w))) (fj_v2 (snd (w_fj w))))"

section \<open>Vocabulary of the window's properties\<close>

text \<open>A notification that is a value (not a terminal), a correlated failure, an event
  unrelated to the request (a value that does not correlate, on any stream), and the
  first correlated value of each success stream in a trace.\<close>

fun chan_next :: "('a1, 'a2, 'f, 'x) chan \<Rightarrow> bool" where
  "chan_next (Ch1 n) = (\<not> is_terminal n)"
| "chan_next (Ch2 n) = (\<not> is_terminal n)"
| "chan_next (ChF n) = (\<not> is_terminal n)"

fun fail_match :: "'s AggregatableAction_scheme \<Rightarrow> ('a1, 'a2, 'f AggregatableAction_scheme, 'x) chan \<Rightarrow> bool" where
  "fail_match r (ChF (Next f)) = filterAction r f"
| "fail_match r c = False"

fun unrelated ::
  "'s AggregatableAction_scheme \<Rightarrow>
   ('a1 AggregatableAction_scheme, 'a2 AggregatableAction_scheme, 'f AggregatableAction_scheme, 'x) chan \<Rightarrow> bool" where
  "unrelated r (Ch1 (Next a)) = (\<not> filterAction r a)"
| "unrelated r (Ch2 (Next b)) = (\<not> filterAction r b)"
| "unrelated r (ChF (Next f)) = (\<not> filterAction r f)"
| "unrelated r c = False"

fun match1 :: "'s AggregatableAction_scheme \<Rightarrow> ('a1 AggregatableAction_scheme, 'a2, 'f, 'x) chan list \<Rightarrow> 'a1 AggregatableAction_scheme option" where
  "match1 r [] = None"
| "match1 r (Ch1 (Next a) # cs) = (if filterAction r a then Some a else match1 r cs)"
| "match1 r (c # cs) = match1 r cs"

fun match2 :: "'s AggregatableAction_scheme \<Rightarrow> ('a1, 'a2 AggregatableAction_scheme, 'f, 'x) chan list \<Rightarrow> 'a2 AggregatableAction_scheme option" where
  "match2 r [] = None"
| "match2 r (Ch2 (Next b) # cs) = (if filterAction r b then Some b else match2 r cs)"
| "match2 r (c # cs) = match2 r cs"

definition join_outcome :: "'a1 option \<Rightarrow> 'a2 option \<Rightarrow> ('a1 \<times> 'a2, 'x) ntf list" where
  "join_outcome m1 m2 = (case (m1, m2) of (Some a, Some b) \<Rightarrow> [Next (a, b), Complete] | _ \<Rightarrow> [])"

definition outcome_shape :: "('a, 'x) ntf list \<Rightarrow> bool" where
  "outcome_shape ns = (ns = [] \<or> (\<exists>p. ns = [Next p, Complete]) \<or> (\<exists>x. ns = [Error x]))"

section \<open>The scenario of the specification\<close>

text \<open>A request \<open>LOAD\<close> with correlation id \<open>abc\<close>, its two responses and its failure.\<close>

type_synonym load_chan =
  "(AggregatableAction, AggregatableAction, string FailActionForAggregation, string rx_error) chan"

definition load_req :: AggregatableAction where
  "load_req = \<lparr>type = ''LOAD'', correlationParams = Some \<lparr>correlationId = Some ''abc'', parentActionType = None\<rparr>\<rparr>"

definition load_a :: AggregatableAction where
  "load_a = \<lparr>type = ''LOAD_A_DONE'', correlationParams = Some \<lparr>correlationId = Some ''abc'', parentActionType = Some ''LOAD''\<rparr>\<rparr>"

definition load_b :: AggregatableAction where
  "load_b = \<lparr>type = ''LOAD_B_DONE'', correlationParams = Some \<lparr>correlationId = Some ''abc'', parentActionType = Some ''LOAD''\<rparr>\<rparr>"

definition load_failed :: "string FailActionForAggregation" where
  "load_failed = \<lparr>type = ''LOAD_FAILED'', correlationParams = Some \<lparr>correlationId = Some ''abc'', parentActionType = Some ''LOAD''\<rparr>, error = Some ''E''\<rparr>"

definition other_b :: AggregatableAction where
  "other_b = \<lparr>type = ''LOAD_B_DONE'', correlationParams = Some \<lparr>correlationId = Some ''xyz'', parentActionType = Some ''LOAD''\<rparr>\<rparr>"

section \<open>The window implements its contract\<close>

lemma window_step_source [simp]: "w_source (fst (window_step w c)) = w_source w"
  by (cases c) (simp_all add: split_def Let_def)

lemma f_pipe_fresh_out:
  "snd (f_pipe r (first_init, (False, sm_init)) n) =
     (case n of
        Next f \<Rightarrow> if filterAction r f then [Error (Thrown (error f))] else []
      | Error x \<Rightarrow> [Error x]
      | Complete \<Rightarrow> [Error EmptyError])"
  by (cases n) (simp_all add: f_pipe_def first_init_def pipe_apply sm_init_def throwError_def)

lemma f_pipe_fresh_skip:
  "\<not> filterAction r f \<Longrightarrow> f_pipe r (first_init, (False, sm_init)) (Next f) = ((first_init, (False, sm_init)), [])"
  by (simp add: f_pipe_def first_init_def pipe_apply)

lemma window_stopped:
  assumes "fst (w_race w)"
  shows "snd (window_step w c) = [] \<and> fst (w_race (fst (window_step w c))) \<and> w_source (fst (window_step w c)) = w_source w"
proof -
  obtain rs where r: "w_race w = (True, rs)" using assms by (cases "w_race w") auto
  show ?thesis using r by (cases c) (simp_all add: split_def Let_def)
qed

lemma window_step_ch1:
  assumes inv: "window_inv w" and live: "\<not> fst (w_race w)"
  shows "window_inv (fst (window_step w (Ch1 n))) \<and>
         window_abs (fst (window_step w (Ch1 n))) = fst (join_spec (w_source w) (window_abs w) (Ch1 n)) \<and>
         snd (window_step w (Ch1 n)) = snd (join_spec (w_source w) (window_abs w) (Ch1 n))"
proof -
  obtain fj where fj: "w_fj w = (False, fj)" and rc: "w_race w = (False, None)"
    using inv live by (cases "w_fj w", cases "w_race w") (auto simp: window_inv_def)
  show ?thesis
  proof (cases "fj_v1 fj")
    case None
    with inv live fj have a1: "w_a1 w = first_init" "\<not> fj_c1 fj"
      by (auto simp: window_inv_def chan_ok_def)
    show ?thesis using inv live fj rc a1 None
      by (cases n; cases "fj_v2 fj")
         (auto simp: window_inv_def window_abs_def chan_ok_def a_pipe_def first_init_def
            rx_step fj_emit_def race_notify_def split_def Let_def)
  next
    case (Some a)
    with inv live fj obtain b1 where a1: "w_a1 w = ((b1, ()), (True, ()))" "fj_c1 fj"
      by (cases "w_a1 w") (auto simp: window_inv_def chan_ok_def)
    show ?thesis using inv live fj rc a1 Some
      by (auto simp: window_inv_def window_abs_def chan_ok_def a_pipe_def rx_step split_def Let_def
          split: option.splits)
  qed
qed

lemma window_step_ch2:
  assumes inv: "window_inv w" and live: "\<not> fst (w_race w)"
  shows "window_inv (fst (window_step w (Ch2 n))) \<and>
         window_abs (fst (window_step w (Ch2 n))) = fst (join_spec (w_source w) (window_abs w) (Ch2 n)) \<and>
         snd (window_step w (Ch2 n)) = snd (join_spec (w_source w) (window_abs w) (Ch2 n))"
proof -
  obtain fj where fj: "w_fj w = (False, fj)" and rc: "w_race w = (False, None)"
    using inv live by (cases "w_fj w", cases "w_race w") (auto simp: window_inv_def)
  show ?thesis
  proof (cases "fj_v2 fj")
    case None
    with inv live fj have a2: "w_a2 w = first_init" "\<not> fj_c2 fj"
      by (auto simp: window_inv_def chan_ok_def)
    show ?thesis using inv live fj rc a2 None
      by (cases n; cases "fj_v1 fj")
         (auto simp: window_inv_def window_abs_def chan_ok_def a_pipe_def first_init_def
            rx_step fj_emit_def race_notify_def split_def Let_def)
  next
    case (Some b)
    with inv live fj obtain b2 where a2: "w_a2 w = ((b2, ()), (True, ()))" "fj_c2 fj"
      by (cases "w_a2 w") (auto simp: window_inv_def chan_ok_def)
    show ?thesis using inv live fj rc a2 Some
      by (auto simp: window_inv_def window_abs_def chan_ok_def a_pipe_def rx_step split_def Let_def
          split: option.splits)
  qed
qed

lemma window_step_chf:
  assumes inv: "window_inv w" and live: "\<not> fst (w_race w)"
  shows "window_inv (fst (window_step w (ChF n))) \<and>
         window_abs (fst (window_step w (ChF n))) = fst (join_spec (w_source w) (window_abs w) (ChF n)) \<and>
         snd (window_step w (ChF n)) = snd (join_spec (w_source w) (window_abs w) (ChF n))"
proof -
  obtain fj where fj: "w_fj w = (False, fj)" and rc: "w_race w = (False, None)"
    and f: "w_f w = (first_init, (False, sm_init))"
    using inv live by (cases "w_fj w", cases "w_race w") (auto simp: window_inv_def)
  show ?thesis
  proof (cases "\<exists>a. n = Next a \<and> \<not> filterAction (w_source w) a")
    case True
    then obtain a where "n = Next a" "\<not> filterAction (w_source w) a" by blast
    then show ?thesis using inv live fj rc f
      by (simp add: window_inv_def window_abs_def f_pipe_fresh_skip)
  next
    case False
    then show ?thesis using inv live fj rc f
      by (cases n) (auto simp: window_inv_def window_abs_def race_notify_def split_def f_pipe_fresh_out)
  qed
qed

lemma window_simulates:
  "simulates (\<lambda>w. window_inv w \<and> w_source w = r) window_abs window_step (join_spec r)"
  apply (rule simulatesI)
  subgoal premises prems for w c
  proof (cases "fst (w_race w)")
    case True
    then show ?thesis using window_stopped [OF True, of c] prems
      by (simp add: window_inv_def window_abs_def)
  next
    case False
    then show ?thesis
    proof (cases c)
      case (Ch1 n)
      then show ?thesis using prems window_step_ch1 [of w n] False by (simp del: window_step.simps)
    next
      case (Ch2 n)
      then show ?thesis using prems window_step_ch2 [of w n] False by (simp del: window_step.simps)
    next
      case (ChF n)
      then show ?thesis using prems window_step_chf [of w n] False by (simp del: window_step.simps)
    qed
  qed
  done

lemma window_init_inv: "window_inv (window_init r)"
  and window_init_abs: "window_abs (window_init r) = Open None None"
  and window_init_source [simp]: "w_source (window_init r) = r"
  by (simp_all add: window_inv_def window_abs_def window_init_def chan_ok_def fj_init_def)

lemma window_run_refines:
  "outs window_step (window_init r) cs = outs (join_spec r) (Open None None) cs \<and>
   window_abs (final window_step (window_init r) cs) = final (join_spec r) (Open None None) cs"
  using run_simulation [OF window_simulates, where s = "window_init r" and xs = cs]
  by (simp add: window_init_inv window_init_abs)

section \<open>Lemmas on the contract\<close>

lemma join_spec_Resolved_run [simp]: "run (join_spec r) Resolved cs = (Resolved, [])"
  by (rule run_silent) simp

lemma join_spec_unrelated: "unrelated r c \<Longrightarrow> join_spec r ph c = (ph, [])"
  by (cases ph; cases c) (auto split: ntf.splits)

lemma join_spec_successes:
  assumes "\<forall>c\<in>set cs. chan_next c \<and> \<not> fail_match r c" and "g1 = None \<or> g2 = None"
  shows "run (join_spec r) (Open g1 g2) cs =
     (case (orelse g1 (match1 r cs), orelse g2 (match2 r cs)) of
        (Some a, Some b) \<Rightarrow> (Resolved, [Next (a, b), Complete])
      | (m1, m2) \<Rightarrow> (Open m1 m2, []))"
  using assms
proof (induction cs arbitrary: g1 g2)
  case Nil
  then show ?case by (cases g1; cases g2) auto
next
  case (Cons c cs)
  then show ?case
    by (cases c; cases g1; cases g2) (auto split: option.splits ntf.splits)
qed

lemma join_spec_open_cases:
  "(\<exists>g1' g2'. join_spec r (Open g1 g2) c = (Open g1' g2', [])) \<or>
   (\<exists>p. join_spec r (Open g1 g2) c = (Resolved, [Next p, Complete])) \<or>
   (\<exists>x. join_spec r (Open g1 g2) c = (Resolved, [Error x]))"
  by (cases c; cases g1; cases g2) (auto split: ntf.splits)

lemma join_spec_step_shape:
  "snd (join_spec r ph c) = [] \<and> fst (join_spec r ph c) \<noteq> Resolved \<or>
   snd (join_spec r ph c) \<noteq> [] \<and> outcome_shape (snd (join_spec r ph c)) \<and> fst (join_spec r ph c) = Resolved \<or>
   snd (join_spec r ph c) = [] \<and> fst (join_spec r ph c) = Resolved"
  by (cases ph; cases c) (auto simp: outcome_shape_def split: option.splits ntf.splits)

lemma join_spec_run_shape:
  "outcome_shape (outs (join_spec r) ph cs) \<and>
   (outs (join_spec r) ph cs \<noteq> [] \<longrightarrow> final (join_spec r) ph cs = Resolved)"
proof (induction cs arbitrary: ph)
  case Nil
  then show ?case by (simp add: outcome_shape_def)
next
  case (Cons c cs)
  from join_spec_step_shape [of r ph c] Cons.IH [of "fst (join_spec r ph c)"] show ?case
    by (auto simp: outcome_shape_def)
qed


section \<open>Properties of the window\<close>

lemmas load_defs = load_req_def load_a_def load_b_def load_failed_def other_b_def filterAction_def

text \<open>Claim C1 (refinement): the operator composition of getAggregatedActions, race(forkJoin([a1$, a2$]), f$) over the filtered first() pipelines, emits on every interleaving of the three shared streams exactly what the window contract join_spec emits.\<close>

theorem window_refines:
  "outs window_step (window_init r) cs = outs (join_spec r) (Open None None) cs"
  using window_run_refines by blast

theorem window_refines_witness:
  "outs window_step (window_init load_req) ([Ch1 (Next load_a), ChF (Next load_failed)] :: load_chan list) =
   [Error (Thrown (Some ''E''))]"
  using window_refines [of load_req "[Ch1 (Next load_a), ChF (Next load_failed)] :: load_chan list"]
  by (simp add: load_defs)

text \<open>Claim C2 (functional): on a trace of values with no correlated failure, the window emits the pair of the first correlated value of action1$ and the first correlated value of action2$, in channel order whatever their arrival order, followed by completion, once both have arrived, and nothing otherwise; later duplicates are not used.\<close>

theorem window_join:
  assumes "\<forall>c\<in>set cs. chan_next c \<and> \<not> fail_match r c"
  shows "outs window_step (window_init r) cs = join_outcome (match1 r cs) (match2 r cs)"
proof -
  have "outs window_step (window_init r) cs = outs (join_spec r) (Open None None) cs"
    using window_run_refines by blast
  also have "\<dots> = join_outcome (match1 r cs) (match2 r cs)"
    using join_spec_successes [OF assms, of None None]
    by (simp add: join_outcome_def split: option.splits)
  finally show ?thesis .
qed

theorem window_join_witness:
  "outs window_step (window_init load_req) ([Ch2 (Next load_b), Ch2 (Next other_b), Ch1 (Next load_a)] :: load_chan list) =
   [Next (load_a, load_b), Complete]"
proof -
  have h: "\<forall>c\<in>set ([Ch2 (Next load_b), Ch2 (Next other_b), Ch1 (Next load_a)] :: load_chan list).
             chan_next c \<and> \<not> fail_match load_req c"
    by simp
  show ?thesis using window_join [OF h] by (simp add: join_outcome_def load_defs)
qed

text \<open>Claim C3 (functional): a correlated failure that arrives before both correlated responses makes the window emit exactly one error carrying the failure action's error payload unchanged; if both responses arrived before it the pair was already emitted; nothing that arrives afterwards is emitted.\<close>

theorem window_fail_fast:
  assumes "\<forall>c\<in>set pre. chan_next c \<and> \<not> fail_match r c" and "filterAction r f"
  shows "outs window_step (window_init r) (pre @ ChF (Next f) # post) =
     (case (match1 r pre, match2 r pre) of
        (Some a, Some b) \<Rightarrow> [Next (a, b), Complete]
      | _ \<Rightarrow> [Error (Thrown (error f))])"
proof -
  have "outs window_step (window_init r) (pre @ ChF (Next f) # post) =
        outs (join_spec r) (Open None None) (pre @ ChF (Next f) # post)"
    using window_run_refines by blast
  then show ?thesis
    using join_spec_successes [OF assms(1), of None None] assms(2)
    by (simp add: run_append split: option.splits)
qed

theorem window_fail_fast_witness:
  "outs window_step (window_init load_req)
     ([Ch1 (Next load_a)] @ ChF (Next load_failed) # [Ch2 (Next load_b)] :: load_chan list) =
   [Error (Thrown (Some ''E''))]"
proof -
  have h1: "\<forall>c\<in>set ([Ch1 (Next load_a)] :: load_chan list). chan_next c \<and> \<not> fail_match load_req c"
    by simp
  have h2: "filterAction load_req load_failed" by (simp add: load_defs)
  show ?thesis using window_fail_fast [OF h1 h2, of "[Ch2 (Next load_b)]"] by (simp add: load_defs)
qed

text \<open>Claim C6 (safety): values on any of the three streams that do not correlate with the request (other correlation id, other parent type, missing parameters) never affect what the window emits: removing them from the trace gives the same output.\<close>

theorem window_ignores_unrelated:
  "outs window_step (window_init r) cs =
   outs window_step (window_init r) (filter (\<lambda>c. \<not> unrelated r c) cs)"
proof -
  have "outs (join_spec r) (Open None None) cs =
        outs (join_spec r) (Open None None) (filter (\<lambda>c. \<not> unrelated r c) cs)"
    using run_filter_silent [of "unrelated r" "join_spec r"] join_spec_unrelated by metis
  then show ?thesis using window_run_refines by metis
qed

theorem window_ignores_unrelated_witness:
  "outs window_step (window_init load_req) ([Ch2 (Next other_b), Ch1 (Next load_a)] :: load_chan list) =
   outs window_step (window_init load_req) ([Ch1 (Next load_a)] :: load_chan list)"
  using window_ignores_unrelated [of load_req "[Ch2 (Next other_b), Ch1 (Next load_a)] :: load_chan list"]
  by (simp add: load_defs)

text \<open>Claim C7 (invariant): on every trace the window emits at most one outcome: nothing, the joined pair followed by completion, or a single error.\<close>

theorem window_single_outcome:
  "outs window_step (window_init r) cs = [] \<or>
   (\<exists>a b. outs window_step (window_init r) cs = [Next (a, b), Complete]) \<or>
   (\<exists>x. outs window_step (window_init r) cs = [Error x])"
  using join_spec_run_shape [of r "Open None None" cs] window_run_refines [of r cs]
  by (simp add: outcome_shape_def)

theorem window_single_outcome_witness:
  "outs window_step (window_init load_req) ([ChF Complete, Ch1 (Next load_a)] :: load_chan list) = [] \<or>
   (\<exists>a b. outs window_step (window_init load_req) ([ChF Complete, Ch1 (Next load_a)] :: load_chan list) =
      [Next (a, b), Complete]) \<or>
   (\<exists>x. outs window_step (window_init load_req) ([ChF Complete, Ch1 (Next load_a)] :: load_chan list) = [Error x])"
  by (rule window_single_outcome)

text \<open>Claim C8 (safety): once the window has emitted its outcome it stays silent: any further events on any stream add nothing to its output (its subscriptions are torn down).\<close>

theorem window_silent_after_outcome:
  assumes "outs window_step (window_init r) cs \<noteq> []"
  shows "outs window_step (window_init r) (cs @ later) = outs window_step (window_init r) cs"
proof -
  have "final (join_spec r) (Open None None) cs = Resolved"
    using join_spec_run_shape [of r "Open None None" cs] window_run_refines [of r cs] assms by simp
  then show ?thesis using window_run_refines [of r "cs @ later"] window_run_refines [of r cs]
    by (simp add: run_append)
qed

theorem window_silent_after_outcome_witness:
  "outs window_step (window_init load_req) ([ChF (Next load_failed)] @ [Ch1 (Next load_a), Ch2 (Next load_b)] :: load_chan list) =
   outs window_step (window_init load_req) ([ChF (Next load_failed)] :: load_chan list)"
proof -
  have h: "outs window_step (window_init load_req) ([ChF (Next load_failed)] :: load_chan list) \<noteq> []"
    using window_run_refines [of load_req "[ChF (Next load_failed)] :: load_chan list"]
    by (simp add: load_defs)
  show ?thesis by (rule window_silent_after_outcome [OF h])
qed

text \<open>Claim C12 (error): if a response stream completes before delivering a correlated value, the window fails with RxJS EmptyError (raised by first()), even when the other response already arrived; completion of a stream is not treated as a correlation miss.\<close>

theorem window_stream_completion_fails:
  assumes "\<forall>c\<in>set pre. chan_next c \<and> \<not> fail_match r c" and "match2 r pre = None"
  shows "outs window_step (window_init r) (pre @ Ch2 Complete # post) = [Error EmptyError]"
proof -
  have "outs window_step (window_init r) (pre @ Ch2 Complete # post) =
        outs (join_spec r) (Open None None) (pre @ Ch2 Complete # post)"
    using window_run_refines by blast
  then show ?thesis
    using join_spec_successes [OF assms(1), of None None] assms(2)
    by (simp add: run_append split: option.splits)
qed

theorem window_stream_completion_fails_witness:
  "outs window_step (window_init load_req) ([Ch1 (Next load_a)] @ Ch2 Complete # [] :: load_chan list) =
   [Error EmptyError]"
proof -
  have h1: "\<forall>c\<in>set ([Ch1 (Next load_a)] :: load_chan list). chan_next c \<and> \<not> fail_match load_req c"
    by simp
  have h2: "match2 load_req ([Ch1 (Next load_a)] :: load_chan list) = None" by simp
  show ?thesis by (rule window_stream_completion_fails [OF h1 h2])
qed

text \<open>Claim C16 (error): an error notification of failAction$ that arrives before the window
  has its outcome fails the window with that same error, whatever response arrived before.\<close>

theorem window_upstream_error:
  assumes "\<forall>c\<in>set pre. chan_next c \<and> \<not> fail_match r c" and "match1 r pre = None \<or> match2 r pre = None"
  shows "outs window_step (window_init r) (pre @ ChF (Error e) # post) = [Error e]"
proof -
  have "outs window_step (window_init r) (pre @ ChF (Error e) # post) =
        outs (join_spec r) (Open None None) (pre @ ChF (Error e) # post)"
    using window_run_refines by blast
  then show ?thesis
    using join_spec_successes [OF assms(1), of None None] assms(2)
    by (auto simp: run_append split: option.splits)
qed

theorem window_upstream_error_witness:
  "outs window_step (window_init load_req) ([Ch2 (Next load_b)] @ ChF (Error EmptyError) # [Ch1 (Next load_a)] :: load_chan list) =
   [Error EmptyError]"
proof -
  have h1: "\<forall>c\<in>set ([Ch2 (Next load_b)] :: load_chan list). chan_next c \<and> \<not> fail_match load_req c"
    by simp
  have h2: "match1 load_req ([Ch2 (Next load_b)] :: load_chan list) = None \<or>
            match2 load_req ([Ch2 (Next load_b)] :: load_chan list) = None"
    by simp
  show ?thesis by (rule window_upstream_error [OF h1 h2])
qed

end
