(* ===== verification/Aggregate.thy ===== *)
theory Aggregate
  imports Window
begin

text \<open>
  The operator returned by \<open>aggregate(action1$, action2$, failAction$)\<close>
  (\<open>aggregate.ts\<close> lines 13--61): \<open>source.pipe(switchMap(sourceAction =>
  getAggregatedActions(sourceAction)))\<close>. Its input is one notification of the request
  stream (\<open>Inl\<close>) or of one of the three shared response streams (\<open>Inr\<close>), in the order
  they are delivered. Its state is the switchMap subscriber's: at most one live window
  (the one of the latest request) and whether the request stream has completed.
  \<open>aggregate_spec\<close> is the same switchMap dispatch over the window contract
  \<open>join_spec\<close>, and \<open>aggregate_run_spec\<close> shows the code implements it.
  \<open>dispatch_step\<close> is the contract of the dispatch itself, a state machine written
  without switchMap; \<open>aggregate_implements_dispatch\<close> shows that the code, windows
  included, emits exactly what it emits, on every interleaving.
\<close>

type_synonym ('s, 'a1, 'a2) agg_state = "('s, 'a1, 'a2) window sm_state sub"

definition aggregate ::
  "(('s AggregatableAction_scheme, 'a1 AggregatableAction_scheme, 'a2 AggregatableAction_scheme) agg_state,
    ('s AggregatableAction_scheme, 'e rx_error) ntf +
    ('a1 AggregatableAction_scheme, 'a2 AggregatableAction_scheme, ('e, 'f) FailActionForAggregation_scheme, 'e rx_error) chan,
    ('a1 AggregatableAction_scheme \<times> 'a2 AggregatableAction_scheme, 'e rx_error) ntf) transducer" where
  "aggregate = subscriber (switchMap_op getAggregatedActions window_step)"

definition aggregate_init :: "'w sm_state sub" where
  "aggregate_init = (False, sm_init)"

section \<open>The contract of the dispatch\<close>

text \<open>The abstract window: the captured request and the phase of its contract.\<close>

definition spec_window :: "'s \<Rightarrow> ('s \<times> ('a1, 'a2) phase) \<times> ('o, 'x) ntf list" where
  "spec_window r = ((r, Open None None), [])"

fun join_step ::
  "(('s AggregatableAction_scheme \<times> ('a1 AggregatableAction_scheme, 'a2 AggregatableAction_scheme) phase),
    ('a1 AggregatableAction_scheme, 'a2 AggregatableAction_scheme, ('e, 'f) FailActionForAggregation_scheme, 'e rx_error) chan,
    ('a1 AggregatableAction_scheme \<times> 'a2 AggregatableAction_scheme, 'e rx_error) ntf) transducer" where
  "join_step (r, ph) c = (let (ph', ns) = join_spec r ph c in ((r, ph'), ns))"

definition aggregate_spec ::
  "(('s AggregatableAction_scheme \<times> ('a1 AggregatableAction_scheme, 'a2 AggregatableAction_scheme) phase) sm_state sub,
    ('s AggregatableAction_scheme, 'e rx_error) ntf +
    ('a1 AggregatableAction_scheme, 'a2 AggregatableAction_scheme, ('e, 'f) FailActionForAggregation_scheme, 'e rx_error) chan,
    ('a1 AggregatableAction_scheme \<times> 'a2 AggregatableAction_scheme, 'e rx_error) ntf) transducer" where
  "aggregate_spec = subscriber (switchMap_op spec_window join_step)"

definition window_view :: "('s, 'a1, 'a2) window \<Rightarrow> 's \<times> ('a1, 'a2) phase" where
  "window_view w = (w_source w, window_abs w)"

definition agg_inv :: "('s, 'a1, 'a2) agg_state \<Rightarrow> bool" where
  "agg_inv st = pred_option window_inv (sm_inner (snd st))"

definition agg_abs :: "('s, 'a1, 'a2) agg_state \<Rightarrow> ('s \<times> ('a1, 'a2) phase) sm_state sub" where
  "agg_abs = map_prod id (sm_map window_view)"

text \<open>The dispatch is live: it has not stopped and the request stream has not completed.\<close>

definition agg_live :: "'w sm_state sub \<Rightarrow> bool" where
  "agg_live st = (\<not> fst st \<and> \<not> sm_outer_done (snd st))"

definition load_req2 :: AggregatableAction where
  "load_req2 = \<lparr>type = ''LOAD'', correlationParams = Some \<lparr>correlationId = Some ''def'', parentActionType = None\<rparr>\<rparr>"

definition load_a2 :: AggregatableAction where
  "load_a2 = \<lparr>type = ''LOAD_A_DONE'', correlationParams = Some \<lparr>correlationId = Some ''def'', parentActionType = Some ''LOAD''\<rparr>\<rparr>"

definition load_b2 :: AggregatableAction where
  "load_b2 = \<lparr>type = ''LOAD_B_DONE'', correlationParams = Some \<lparr>correlationId = Some ''def'', parentActionType = Some ''LOAD''\<rparr>\<rparr>"

text \<open>Invariant of the abstract dispatch over an input prefix: the live window belongs to a
  request of the prefix and holds only responses correlated with it.\<close>

fun phase_ok :: "'s AggregatableAction_scheme \<Rightarrow> ('a1 AggregatableAction_scheme, 'a2 AggregatableAction_scheme) phase \<Rightarrow> bool" where
  "phase_ok r Resolved = True"
| "phase_ok r (Open g1 g2) = (pred_option (filterAction r) g1 \<and> pred_option (filterAction r) g2)"

definition spec_ok ::
  "(('s AggregatableAction_scheme, 'x) ntf + 'c) list \<Rightarrow>
   ('s AggregatableAction_scheme \<times> ('a1 AggregatableAction_scheme, 'a2 AggregatableAction_scheme) phase) sm_state sub \<Rightarrow> bool" where
  "spec_ok xs st = pred_option (\<lambda>(r, ph). Inl (Next r) \<in> set xs \<and> phase_ok r ph) (sm_inner (snd st))"

type_synonym load_input = "(AggregatableAction, string rx_error) ntf + load_chan"

section \<open>The dispatch as a state machine\<close>

text \<open>
  What the dispatch promises, written directly as a state machine rather than through the
  switchMap subscriber: at most one open window, the one of the latest request, with the
  correlated values it has received so far (\<open>d_open\<close>); whether the request stream
  has completed; whether the output has stopped. A new request replaces the open window.
  A window that answers with a pair emits the pair and closes; the output completes with
  it when the request stream has already completed. A window that fails, and an error of
  the request stream, end the output with that error. Completion of the request stream
  completes the output at once only when no window is open.
\<close>

record ('s, 'a1, 'a2) dispatch =
  d_open :: "('s \<times> 'a1 option \<times> 'a2 option) option"
  d_source_done :: bool
  d_stopped :: bool

definition dispatch_init :: "('s, 'a1, 'a2) dispatch" where
  "dispatch_init = \<lparr>d_open = None, d_source_done = False, d_stopped = False\<rparr>"

fun window_answer ::
  "('s, 'a1, 'a2) dispatch \<Rightarrow> 's \<Rightarrow> ('a1, 'a2) phase \<times> ('a1 \<times> 'a2, 'x) ntf list \<Rightarrow>
   ('s, 'a1, 'a2) dispatch \<times> ('a1 \<times> 'a2, 'x) ntf list" where
  "window_answer d r (Open g1 g2, ns) = (d\<lparr>d_open := Some (r, g1, g2)\<rparr>, [])"
| "window_answer d r (Resolved, Next p # ns) =
     (if d_source_done d then (d\<lparr>d_open := None, d_stopped := True\<rparr>, [Next p, Complete])
      else (d\<lparr>d_open := None\<rparr>, [Next p]))"
| "window_answer d r (Resolved, ns) = (d\<lparr>d_open := None, d_stopped := True\<rparr>, ns)"

fun dispatch_step ::
  "(('s AggregatableAction_scheme, 'a1 AggregatableAction_scheme, 'a2 AggregatableAction_scheme) dispatch,
    ('s AggregatableAction_scheme, 'e rx_error) ntf +
    ('a1 AggregatableAction_scheme, 'a2 AggregatableAction_scheme, ('e, 'f) FailActionForAggregation_scheme, 'e rx_error) chan,
    ('a1 AggregatableAction_scheme \<times> 'a2 AggregatableAction_scheme, 'e rx_error) ntf) transducer" where
  "dispatch_step d (Inl (Next r)) =
     (if d_stopped d \<or> d_source_done d then (d, []) else (d\<lparr>d_open := Some (r, None, None)\<rparr>, []))"
| "dispatch_step d (Inl (Error e)) =
     (if d_stopped d \<or> d_source_done d then (d, []) else (d\<lparr>d_stopped := True\<rparr>, [Error e]))"
| "dispatch_step d (Inl Complete) =
     (if d_stopped d \<or> d_source_done d then (d, [])
      else if d_open d = None then (d\<lparr>d_source_done := True, d_stopped := True\<rparr>, [Complete])
      else (d\<lparr>d_source_done := True\<rparr>, []))"
| "dispatch_step d (Inr c) =
     (if d_stopped d then (d, [])
      else case d_open d of
        None \<Rightarrow> (d, [])
      | Some (r, g1, g2) \<Rightarrow> window_answer d r (join_spec r (Open g1 g2) c))"

definition dispatch_abs :: "('s \<times> ('a1, 'a2) phase) sm_state sub \<Rightarrow> ('s, 'a1, 'a2) dispatch" where
  "dispatch_abs st =
     \<lparr>d_open = (case sm_inner (snd st) of Some (r, Open g1 g2) \<Rightarrow> Some (r, g1, g2) | _ \<Rightarrow> None),
      d_source_done = sm_outer_done (snd st), d_stopped = fst st\<rparr>"

definition dispatch_inv :: "('s \<times> ('a1, 'a2) phase) sm_state sub \<Rightarrow> bool" where
  "dispatch_inv st = (fst st \<or> (case sm_inner (snd st) of Some (r, Resolved) \<Rightarrow> False | _ \<Rightarrow> True))"

definition dispatch_live :: "('s, 'a1, 'a2) dispatch \<Rightarrow> bool" where
  "dispatch_live d = (\<not> d_stopped d \<and> \<not> d_source_done d)"


section \<open>The dispatch implements its contract\<close>

lemma window_view_simulates: "simulates window_inv window_view window_step join_step"
  apply (rule simulatesI)
  subgoal premises inv for w c
  proof -
    have "window_inv (fst (window_step w c)) \<and>
      window_abs (fst (window_step w c)) = fst (join_spec (w_source w) (window_abs w) c) \<and>
      snd (window_step w c) = snd (join_spec (w_source w) (window_abs w) c)"
      using window_simulates [of "w_source w"] inv unfolding simulates_def by blast
    then show ?thesis by (simp add: window_view_def split_def Let_def)
  qed
  done

lemma aggregate_simulates: "simulates agg_inv agg_abs aggregate aggregate_spec"
proof -
  have "simulates (\<lambda>st. pred_option window_inv (sm_inner st)) (sm_map window_view)
          (switchMap_op getAggregatedActions window_step) (switchMap_op spec_window join_step)"
    by (rule switchMap_simulates [OF window_view_simulates])
       (simp add: getAggregatedActions_def spec_window_def window_view_def window_init_inv window_init_abs)
  then show ?thesis
    unfolding aggregate_def aggregate_spec_def agg_inv_def agg_abs_def
    by (rule subscriber_simulates)
qed

lemma aggregate_init_inv: "agg_inv aggregate_init"
  and aggregate_init_abs: "agg_abs aggregate_init = aggregate_init"
  by (simp_all add: agg_inv_def agg_abs_def aggregate_init_def sm_init_def sm_map_def)

lemma aggregate_run_refines:
  assumes "agg_inv st"
  shows "outs aggregate st xs = outs aggregate_spec (agg_abs st) xs \<and>
         agg_abs (final aggregate st xs) = final aggregate_spec (agg_abs st) xs \<and>
         agg_inv (final aggregate st xs)"
  by (rule run_simulation [OF aggregate_simulates assms])

lemma aggregate_run_spec: "outs aggregate aggregate_init xs = outs aggregate_spec aggregate_init xs"
  using aggregate_run_refines [OF aggregate_init_inv, of xs] by (simp add: aggregate_init_abs)

section \<open>Lemmas on the contract of the dispatch\<close>

lemma spec_inner_run:
  "outs aggregate_spec (False, st\<lparr>sm_inner := Some (r, ph)\<rparr>) (map Inr cs) =
   (if sm_outer_done st then outs (join_spec r) ph cs
    else filter (\<lambda>n. n \<noteq> Complete) (outs (join_spec r) ph cs))"
proof (induction cs arbitrary: ph st)
  case Nil
  then show ?case by simp
next
  case (Cons c cs)
  show ?case
  proof (cases "snd (join_spec r ph c) = []")
    case True
    with Cons show ?thesis by (simp add: aggregate_spec_def split_def Let_def)
  next
    case False
    with join_spec_step_shape [of r ph c]
    have res: "fst (join_spec r ph c) = Resolved" and shape: "outcome_shape (snd (join_spec r ph c))"
      by auto
    have silent: "run aggregate_spec (False, st\<lparr>sm_inner := None\<rparr>) (map Inr cs) = ((False, st\<lparr>sm_inner := None\<rparr>), [])"
      by (rule run_silent) (auto simp: aggregate_spec_def)
    from shape False consider (pair) p where "snd (join_spec r ph c) = [Next p, Complete]"
      | (err) x where "snd (join_spec r ph c) = [Error x]"
      by (auto simp: outcome_shape_def)
    then show ?thesis
    proof cases
      case pair
      with res silent show ?thesis by (simp add: aggregate_spec_def split_def Let_def)
    next
      case err
      with res show ?thesis by (simp add: aggregate_spec_def split_def Let_def)
    qed
  qed
qed


lemma agg_abs_live: "agg_live (agg_abs st) = agg_live st"
  by (cases st) (simp add: agg_live_def agg_abs_def sm_map_def)

lemma agg_live_final:
  "agg_live (final aggregate aggregate_init xs) = agg_live (final aggregate_spec aggregate_init xs)"
  using aggregate_run_refines [OF aggregate_init_inv, of xs] agg_abs_live [of "final aggregate aggregate_init xs"]
  by (simp add: aggregate_init_abs)

lemma aggregate_spec_request:
  assumes "agg_live st"
  shows "outs aggregate_spec st (Inl (Next r) # map Inr cs) =
         filter (\<lambda>n. n \<noteq> Complete) (outs (join_spec r) (Open None None) cs)"
proof -
  obtain sst where st: "st = (False, sst)" and live: "\<not> sm_outer_done sst"
    using assms by (cases st) (auto simp: agg_live_def)
  have step: "aggregate_spec (False, sst) (Inl (Next r)) = ((False, sst\<lparr>sm_inner := Some (r, Open None None)\<rparr>), [])"
    using live by (simp add: aggregate_spec_def spec_window_def)
  show ?thesis using spec_inner_run [where st = sst and r = r and ph = "Open None None" and cs = cs] live by (simp add: st step)
qed

lemma aggregate_spec_request_then_complete:
  assumes "agg_live st"
  shows "outs aggregate_spec st (Inl (Next r) # Inl Complete # map Inr cs) = outs (join_spec r) (Open None None) cs"
proof -
  obtain sst where st: "st = (False, sst)" and live: "\<not> sm_outer_done sst"
    using assms by (cases st) (auto simp: agg_live_def)
  have step: "aggregate_spec (False, sst) (Inl (Next r)) = ((False, sst\<lparr>sm_inner := Some (r, Open None None)\<rparr>), [])"
    using live by (simp add: aggregate_spec_def spec_window_def)
  have step2: "aggregate_spec (False, sst\<lparr>sm_inner := Some (r, Open None None)\<rparr>) (Inl Complete) =
      ((False, (sst\<lparr>sm_outer_done := True\<rparr>)\<lparr>sm_inner := Some (r, Open None None)\<rparr>), [])"
    using live by (simp add: aggregate_spec_def)
  show ?thesis using spec_inner_run [where st = "sst\<lparr>sm_outer_done := True\<rparr>" and r = r and ph = "Open None None" and cs = cs]
    by (simp add: st step step2)
qed

lemma join_spec_ok:
  "phase_ok r ph \<Longrightarrow> phase_ok r (fst (join_spec r ph c)) \<and>
     (\<forall>a b. Next (a, b) \<in> set (snd (join_spec r ph c)) \<longrightarrow> filterAction r a \<and> filterAction r b)"
  by (cases ph; cases c) (auto split: ntf.splits option.splits)

lemma spec_ok_mono: "spec_ok xs st \<Longrightarrow> spec_ok (xs @ ys) st"
  by (auto simp: spec_ok_def pred_option_def split: option.splits)

lemma aggregate_spec_step_ok:
  assumes ok: "spec_ok xs st"
  shows "spec_ok (xs @ [i]) (fst (aggregate_spec st i)) \<and>
    (\<forall>a b. Next (a, b) \<in> set (snd (aggregate_spec st i)) \<longrightarrow>
       (\<exists>r. Inl (Next r) \<in> set (xs @ [i]) \<and> filterAction r a \<and> filterAction r b))"
proof (cases st)
  case (Pair b s)
  show ?thesis
  proof (cases b)
    case True
    with Pair ok show ?thesis by (simp add: aggregate_spec_def spec_ok_mono)
  next
    case False
    show ?thesis
    proof (cases i)
      case (Inl n)
      with ok Pair False show ?thesis
        by (cases n) (auto simp: aggregate_spec_def spec_window_def spec_ok_def pred_option_def)
    next
      case (Inr c)
      show ?thesis
      proof (cases "sm_inner s")
        case None
        with Inr Pair False ok show ?thesis by (simp add: aggregate_spec_def spec_ok_def)
      next
        case (Some w)
        obtain r ph where w: "w = (r, ph)" by (cases w)
        with Some ok Pair have seen: "Inl (Next r) \<in> set xs" and pok: "phase_ok r ph"
          by (auto simp: spec_ok_def)
        let ?fw = "sm_forward (s\<lparr>sm_inner := Some (r, fst (join_spec r ph c))\<rparr>) (snd (join_spec r ph c))"
        have inner: "sm_inner (fst ?fw) = Some (r, fst (join_spec r ph c)) \<or> sm_inner (fst ?fw) = None"
          using sm_forward_inner [of "s\<lparr>sm_inner := Some (r, fst (join_spec r ph c))\<rparr>" "snd (join_spec r ph c)"]
          by simp
        have step: "aggregate_spec st i = ((terminated (snd ?fw), fst ?fw), upto_terminal (snd ?fw))"
          using Inr Pair False Some w by (simp add: aggregate_spec_def split_def Let_def)
        have out: "Next v \<in> set (snd (join_spec r ph c))" if "Next v \<in> set (snd (aggregate_spec st i))" for v
        proof -
          from that have "Next v \<in> set (upto_terminal (snd ?fw))" unfolding step by simp
          then have "Next v \<in> set (snd ?fw)" using set_upto_terminal by blast
          then show ?thesis by (rule sm_forward_next)
        qed
        have "spec_ok (xs @ [i]) (fst (aggregate_spec st i))"
          using join_spec_ok [OF pok, of c] inner seen unfolding step by (auto simp: spec_ok_def)
        then show ?thesis
          using join_spec_ok [OF pok, of c] seen out by fastforce
      qed
    qed
  qed
qed

lemma aggregate_spec_run_ok:
  "spec_ok ys st \<Longrightarrow>
   \<forall>a b. Next (a, b) \<in> set (outs aggregate_spec st xs) \<longrightarrow>
     (\<exists>r. Inl (Next r) \<in> set (ys @ xs) \<and> filterAction r a \<and> filterAction r b)"
proof (induction xs arbitrary: ys st)
  case Nil
  then show ?case by simp
next
  case (Cons i xs)
  from aggregate_spec_step_ok [OF Cons.prems, of i]
  have ok: "spec_ok (ys @ [i]) (fst (aggregate_spec st i))"
    and now: "\<forall>a b. Next (a, b) \<in> set (snd (aggregate_spec st i)) \<longrightarrow>
       (\<exists>r. Inl (Next r) \<in> set (ys @ [i]) \<and> filterAction r a \<and> filterAction r b)"
    by blast+
  from Cons.IH [OF ok] now show ?case by fastforce
qed

section \<open>The dispatch implements the state machine\<close>

lemma aggregate_spec_dispatch: "simulates dispatch_inv dispatch_abs aggregate_spec dispatch_step"
  apply (rule simulatesI)
  subgoal premises inv for st i
  proof (cases st)
    case (Pair b s)
    show ?thesis
    proof (cases "b \<or> (\<exists>n. i = Inl n)")
      case True
      with inv Pair show ?thesis
        by (cases b; cases i; cases "projl i") (auto simp: aggregate_spec_def dispatch_abs_def dispatch_inv_def
                          spec_window_def split: ntf.splits option.splits phase.splits)
    next
      case False
      then obtain c where i: "i = Inr c" and live: "\<not> b" by (cases i) auto
      show ?thesis
      proof (cases "sm_inner s")
        case None
        with i live Pair show ?thesis
          by (simp add: aggregate_spec_def dispatch_abs_def dispatch_inv_def)
      next
        case (Some w)
        with inv Pair live obtain r g1 g2 where w: "w = (r, Open g1 g2)"
          by (cases w; cases "snd w") (auto simp: dispatch_inv_def)
        from join_spec_open_cases [of r g1 g2 c] show ?thesis
          by (elim disjE exE) (simp_all add: Pair i live Some w aggregate_spec_def dispatch_abs_def
                      dispatch_inv_def Let_def)
      qed
    qed
  qed
  done

lemma dispatch_init_inv: "dispatch_inv aggregate_init"
  and dispatch_init_abs: "dispatch_abs aggregate_init = dispatch_init"
  by (simp_all add: dispatch_inv_def dispatch_abs_def aggregate_init_def sm_init_def dispatch_init_def)

lemma aggregate_run_dispatch:
  "outs aggregate aggregate_init xs = outs dispatch_step dispatch_init xs \<and>
   agg_live (final aggregate aggregate_init xs) = dispatch_live (final dispatch_step dispatch_init xs)"
proof -
  have "outs aggregate_spec aggregate_init xs = outs dispatch_step dispatch_init xs \<and>
        dispatch_abs (final aggregate_spec aggregate_init xs) = final dispatch_step dispatch_init xs"
    using run_simulation [OF aggregate_spec_dispatch dispatch_init_inv, of xs] by (simp add: dispatch_init_abs)
  moreover have "agg_live st = dispatch_live (dispatch_abs st)" for st :: "('s \<times> ('a1, 'a2) phase) sm_state sub"
    by (simp add: agg_live_def dispatch_live_def dispatch_abs_def)
  ultimately show ?thesis using aggregate_run_spec [of xs] agg_live_final [of xs] by metis
qed

lemma aggregate_run_append:
  "outs aggregate aggregate_init (xs @ ys) =
   outs aggregate aggregate_init xs @ outs dispatch_step (final dispatch_step dispatch_init xs) ys"
  using aggregate_run_dispatch [of "xs @ ys"] aggregate_run_dispatch [of xs] by (simp add: run_append)

lemma window_answer_open [simp]: "window_answer (d\<lparr>d_open := u\<rparr>) r x = window_answer d r x"
  by (cases "(d, r, x)" rule: window_answer.cases) simp_all

lemma dispatch_stopped_step: "d_stopped d \<Longrightarrow> dispatch_step d i = (d, [])"
  by (cases "(d, i)" rule: dispatch_step.cases) simp_all

lemma dispatch_stopped_run [simp]: "d_stopped d \<Longrightarrow> run dispatch_step d ys = (d, [])"
  by (rule run_silent) (rule dispatch_stopped_step)

lemma dispatch_closed_run: "d_open d = None \<Longrightarrow> run dispatch_step d (map Inr cs) = (d, [])"
  by (induction cs) (simp_all)

lemma dispatch_window_run:
  assumes "\<not> d_stopped d" and "d_open d = Some (r, g1, g2)"
  shows "run dispatch_step d (map Inr cs) = window_answer d r (run (join_spec r) (Open g1 g2) cs)"
  using assms
proof (induction cs arbitrary: d g1 g2)
  case Nil
  then show ?case by simp
next
  case (Cons c cs)
  from join_spec_open_cases [of r g1 g2 c] show ?case
  proof (elim disjE exE)
    fix g1' g2' assume j: "join_spec r (Open g1 g2) c = (Open g1' g2', [])"
    have "run dispatch_step (d\<lparr>d_open := Some (r, g1', g2')\<rparr>) (map Inr cs) =
          window_answer (d\<lparr>d_open := Some (r, g1', g2')\<rparr>) r (run (join_spec r) (Open g1' g2') cs)"
      by (rule Cons.IH) (use Cons.prems in simp_all)
    moreover have "dispatch_step d (Inr c) = (d\<lparr>d_open := Some (r, g1', g2')\<rparr>, [])"
      using Cons.prems j by (simp)
    ultimately show ?thesis using j by simp
  next
    fix p assume j: "join_spec r (Open g1 g2) c = (Resolved, [Next p, Complete])"
    with Cons.prems show ?thesis by (simp add: dispatch_closed_run)
  next
    fix x assume j: "join_spec r (Open g1 g2) c = (Resolved, [Error x])"
    with Cons.prems show ?thesis by (simp)
  qed
qed

lemma dispatch_request_run:
  assumes "dispatch_live d"
  shows "run dispatch_step d (Inl (Next r) # map Inr cs) =
         window_answer d r (run (join_spec r) (Open None None) cs)"
proof -
  have "dispatch_step d (Inl (Next r)) = (d\<lparr>d_open := Some (r, None, None)\<rparr>, [])"
    using assms by (simp add: dispatch_live_def)
  moreover have "run dispatch_step (d\<lparr>d_open := Some (r, None, None)\<rparr>) (map Inr cs) =
      window_answer d r (run (join_spec r) (Open None None) cs)"
    using dispatch_window_run [of "d\<lparr>d_open := Some (r, None, None)\<rparr>" r None None cs] assms
    by (simp add: dispatch_live_def)
  ultimately show ?thesis using assms by (simp add: dispatch_live_def)
qed

section \<open>Properties of the dispatch\<close>

lemmas agg_eval = aggregate_spec_def spec_window_def aggregate_init_def sm_init_def load_defs load_req2_def


text \<open>Claim C5 (refinement): on every interleaving of the request stream and the three
  response streams, the code's dispatch source.pipe(switchMap(getAggregatedActions)), with
  every window built from filter, first, forkJoin and race, emits exactly what the state
  machine dispatch_step emits: one open window, of the latest request; a pair is emitted
  and closes the window; a failure or a source error ends the output; the output completes
  after the request stream, once no window is open.\<close>

theorem aggregate_implements_dispatch:
  "outs aggregate aggregate_init xs = outs dispatch_step dispatch_init xs"
  using aggregate_run_dispatch by blast

theorem aggregate_implements_dispatch_witness:
  "outs aggregate aggregate_init
     ([Inl (Next load_req), Inl (Next load_req2), Inr (Ch1 (Next load_a)), Inr (Ch1 (Next load_a2)),
       Inr (Ch2 (Next load_b)), Inr (Ch2 (Next load_b2))] :: load_input list) =
   [Next (load_a2, load_b2)]"
  unfolding aggregate_implements_dispatch by (simp add: dispatch_init_def load_defs load_req2_def load_a2_def load_b2_def)

text \<open>Claim C4 (safety): a request received while the previous request's window is still open cancels that window (switchMap unsubscribes it): from then on the output is exactly what the new request's window emits, without its completion, so the earlier request never gets an outcome even when all its responses arrive.\<close>

theorem aggregate_switches:
  assumes "agg_live (final aggregate aggregate_init xs)"
  shows "outs aggregate aggregate_init (xs @ Inl (Next r) # map Inr cs) =
         outs aggregate aggregate_init xs @ filter (\<lambda>n. n \<noteq> Complete) (outs window_step (window_init r) cs)"
proof -
  let ?st = "final aggregate aggregate_init xs"
  have inv: "agg_inv ?st"
    using aggregate_run_refines [OF aggregate_init_inv, of xs] by blast
  have "outs aggregate ?st (Inl (Next r) # map Inr cs) =
        outs aggregate_spec (agg_abs ?st) (Inl (Next r) # map Inr cs)"
    using aggregate_run_refines [OF inv] by blast
  also have "\<dots> = filter (\<lambda>n. n \<noteq> Complete) (outs (join_spec r) (Open None None) cs)"
    using aggregate_spec_request assms agg_abs_live by blast
  also have "\<dots> = filter (\<lambda>n. n \<noteq> Complete) (outs window_step (window_init r) cs)"
    using window_run_refines by metis
  finally show ?thesis by (simp add: run_append)
qed

theorem aggregate_switches_witness:
  "outs aggregate aggregate_init
     ([Inl (Next load_req)] @ Inl (Next load_req2) # map Inr ([Ch1 (Next load_a), Ch2 (Next load_b)] :: load_chan list)) = []"
proof -
  have h: "agg_live (final aggregate aggregate_init [Inl (Next load_req)] ::
             (AggregatableAction, AggregatableAction, AggregatableAction) agg_state)"
    by (simp add: agg_live_def aggregate_def aggregate_init_def getAggregatedActions_def sm_init_def)
  have "outs window_step (window_init load_req2) ([Ch1 (Next load_a), Ch2 (Next load_b)] :: load_chan list) = []"
    using window_run_refines [of load_req2 "[Ch1 (Next load_a), Ch2 (Next load_b)] :: load_chan list"]
    by (simp add: load_defs load_req2_def)
  moreover have "outs aggregate aggregate_init [Inl (Next load_req)] = ([] :: (AggregatableAction \<times> AggregatableAction, string rx_error) ntf list)"
    by (simp add: aggregate_def aggregate_init_def getAggregatedActions_def sm_init_def)
  ultimately show ?thesis using aggregate_switches [OF h, of load_req2 "[Ch1 (Next load_a), Ch2 (Next load_b)] :: load_chan list"]
    by simp
qed

text \<open>Claim C13 (error): while the operator is live, a correlated failure that reaches the
  window of the latest request before both of its responses ends the whole output stream
  with the failure's error: the output is what came before followed by exactly
  Error (Thrown (error f)), and no later request or response produces anything.\<close>

theorem aggregate_failure_terminates:
  assumes "agg_live (final aggregate aggregate_init xs)"
    and "\<forall>c\<in>set cs. chan_next c \<and> \<not> fail_match r c"
    and "match1 r cs = None \<or> match2 r cs = None"
    and "filterAction r f"
  shows "outs aggregate aggregate_init (xs @ Inl (Next r) # map Inr cs @ Inr (ChF (Next f)) # ys) =
         outs aggregate aggregate_init xs @ [Error (Thrown (error f))]"
proof -
  let ?d = "final dispatch_step dispatch_init xs"
  have live: "dispatch_live ?d" using assms(1) aggregate_run_dispatch by blast
  have win: "run (join_spec r) (Open None None) (cs @ [ChF (Next f)]) = (Resolved, [Error (Thrown (error f))])"
    using join_spec_successes [OF assms(2), of None None] assms(3,4)
    by (auto simp: run_append split: option.splits)
  have run: "run dispatch_step ?d (Inl (Next r) # map Inr (cs @ [ChF (Next f)])) =
        (?d\<lparr>d_open := None, d_stopped := True\<rparr>, [Error (Thrown (error f))])"
    unfolding dispatch_request_run [OF live] win by simp
  have tail: "outs dispatch_step ?d ((Inl (Next r) # map Inr (cs @ [ChF (Next f)])) @ ys) = [Error (Thrown (error f))]"
    unfolding run_append run by simp
  have eq: "Inl (Next r) # map Inr cs @ Inr (ChF (Next f)) # ys = (Inl (Next r) # map Inr (cs @ [ChF (Next f)])) @ ys"
    by simp
  show ?thesis unfolding eq aggregate_run_append tail ..
qed

theorem aggregate_failure_terminates_witness:
  "outs aggregate aggregate_init
     ([] @ Inl (Next load_req) # map Inr ([Ch1 (Next load_a)] :: load_chan list) @ Inr (ChF (Next load_failed)) #
      ([Inl (Next load_req2), Inr (Ch1 (Next load_a2)), Inr (Ch2 (Next load_b2))] :: load_input list)) =
   [Error (Thrown (Some ''E''))]"
proof -
  have h1: "agg_live (final aggregate aggregate_init ([] :: load_input list) ::
             (AggregatableAction, AggregatableAction, AggregatableAction) agg_state)"
    by (simp add: agg_live_def aggregate_init_def sm_init_def)
  have h2: "\<forall>c\<in>set ([Ch1 (Next load_a)] :: load_chan list). chan_next c \<and> \<not> fail_match load_req c"
    by simp
  have h3: "match1 load_req ([Ch1 (Next load_a)] :: load_chan list) = None \<or>
            match2 load_req ([Ch1 (Next load_a)] :: load_chan list) = None"
    by simp
  have h4: "filterAction load_req load_failed" by (simp add: load_defs)
  have e: "outs aggregate aggregate_init ([] :: load_input list) = []" by simp
  show ?thesis
    using aggregate_failure_terminates [OF h1 h2 h3 h4,
        of "[Inl (Next load_req2), Inr (Ch1 (Next load_a2)), Inr (Ch2 (Next load_b2))]"]
    by (simp add: load_defs)
qed

text \<open>Claim C14 (functional): when the request stream completes while a window is open, the output stream is not completed at once: it emits what the window emits, and completes after the joined pair.\<close>

theorem aggregate_completion_waits:
  assumes "agg_live (final aggregate aggregate_init xs)"
  shows "outs aggregate aggregate_init (xs @ Inl (Next r) # Inl Complete # map Inr cs) =
         outs aggregate aggregate_init xs @ outs window_step (window_init r) cs"
proof -
  let ?st = "final aggregate aggregate_init xs"
  have inv: "agg_inv ?st"
    using aggregate_run_refines [OF aggregate_init_inv, of xs] by blast
  have "outs aggregate ?st (Inl (Next r) # Inl Complete # map Inr cs) =
        outs aggregate_spec (agg_abs ?st) (Inl (Next r) # Inl Complete # map Inr cs)"
    using aggregate_run_refines [OF inv] by blast
  also have "\<dots> = outs (join_spec r) (Open None None) cs"
    using aggregate_spec_request_then_complete assms agg_abs_live by blast
  also have "\<dots> = outs window_step (window_init r) cs"
    using window_run_refines by metis
  finally show ?thesis by (simp add: run_append)
qed

theorem aggregate_completion_waits_witness:
  "outs aggregate aggregate_init ([] @ Inl (Next load_req) # Inl Complete #
     map Inr ([Ch1 (Next load_a), Ch2 (Next load_b)] :: load_chan list) :: load_input list) =
   [Next (load_a, load_b), Complete]"
proof -
  have h: "agg_live (final aggregate aggregate_init ([] :: load_input list) ::
             (AggregatableAction, AggregatableAction, AggregatableAction) agg_state)"
    by (simp add: agg_live_def aggregate_init_def sm_init_def)
  have w: "outs window_step (window_init load_req) ([Ch1 (Next load_a), Ch2 (Next load_b)] :: load_chan list) =
      [Next (load_a, load_b), Complete]"
    using window_run_refines [of load_req "[Ch1 (Next load_a), Ch2 (Next load_b)] :: load_chan list"]
    by (simp add: load_defs)
  show ?thesis using aggregate_completion_waits [OF h, of load_req "[Ch1 (Next load_a), Ch2 (Next load_b)]"] w
    by simp
qed

text \<open>Claim C15 (safety): every pair the operator emits consists of two responses correlated with one and the same request of the request stream: no outcome mixes responses of different requests.\<close>

theorem aggregate_pairs_correlated:
  assumes "Next (a, b) \<in> set (outs aggregate aggregate_init xs)"
  shows "\<exists>r. Inl (Next r) \<in> set xs \<and> filterAction r a \<and> filterAction r b"
proof -
  have "outs aggregate aggregate_init xs = outs aggregate_spec aggregate_init xs"
    by (rule aggregate_run_spec)
  moreover have "spec_ok [] (aggregate_init :: ('s AggregatableAction_scheme \<times> ('a1 AggregatableAction_scheme, 'a2 AggregatableAction_scheme) phase) sm_state sub)"
    by (simp add: spec_ok_def aggregate_init_def sm_init_def)
  ultimately show ?thesis using aggregate_spec_run_ok assms by fastforce
qed

theorem aggregate_pairs_correlated_witness:
  "\<exists>r. Inl (Next r) \<in> set ([Inl (Next load_req2), Inl (Next load_req), Inr (Ch1 (Next load_a)), Inr (Ch2 (Next load_b))] :: load_input list) \<and>
     filterAction r load_a \<and> filterAction r load_b"
proof -
  have h: "Next (load_a, load_b) \<in> set (outs aggregate aggregate_init
      ([Inl (Next load_req2), Inl (Next load_req), Inr (Ch1 (Next load_a)), Inr (Ch2 (Next load_b))] :: load_input list))"
    unfolding aggregate_run_spec by (simp add: agg_eval)
  show ?thesis by (rule aggregate_pairs_correlated [OF h])
qed

text \<open>Claim C17 (functional): while the operator is live, a request whose responses both
  arrive (values only, no correlated failure) before the next request is answered with
  exactly the pair of its first correlated responses, without completing the output, and
  the operator stays live: successive requests that do not overlap are each answered.\<close>

theorem aggregate_sequential_requests:
  assumes "agg_live (final aggregate aggregate_init xs)"
    and "\<forall>c\<in>set cs. chan_next c \<and> \<not> fail_match r c"
    and "match1 r cs = Some a" and "match2 r cs = Some b"
  shows "outs aggregate aggregate_init (xs @ Inl (Next r) # map Inr cs) = outs aggregate aggregate_init xs @ [Next (a, b)] \<and>
         agg_live (final aggregate aggregate_init (xs @ Inl (Next r) # map Inr cs))"
proof -
  let ?d = "final dispatch_step dispatch_init xs"
  have live: "dispatch_live ?d" using assms(1) aggregate_run_dispatch by blast
  have win: "run (join_spec r) (Open None None) cs = (Resolved, [Next (a, b), Complete])"
    using join_spec_successes [OF assms(2), of None None] assms(3,4) by simp
  have run: "run dispatch_step ?d (Inl (Next r) # map Inr cs) = (?d\<lparr>d_open := None\<rparr>, [Next (a, b)])"
    using live unfolding dispatch_request_run [OF live] win by (simp add: dispatch_live_def)
  have "outs aggregate aggregate_init (xs @ Inl (Next r) # map Inr cs) = outs aggregate aggregate_init xs @ [Next (a, b)]"
    unfolding aggregate_run_append run by simp
  moreover have "dispatch_live (final dispatch_step dispatch_init (xs @ Inl (Next r) # map Inr cs))"
    using live unfolding run_append run by (simp add: dispatch_live_def)
  ultimately show ?thesis using aggregate_run_dispatch by blast
qed

theorem aggregate_sequential_requests_witness:
  "outs aggregate aggregate_init
     (([Inl (Next load_req2), Inr (Ch2 (Next load_b2)), Inr (Ch1 (Next load_a2))] :: load_input list) @
      Inl (Next load_req) # map Inr ([Ch2 (Next load_b), Ch2 (Next load_b2), Ch1 (Next load_a)] :: load_chan list)) =
   [Next (load_a2, load_b2), Next (load_a, load_b)]"
proof -
  have pre: "outs aggregate aggregate_init
      ([Inl (Next load_req2), Inr (Ch2 (Next load_b2)), Inr (Ch1 (Next load_a2))] :: load_input list) =
      [Next (load_a2, load_b2)] \<and>
    agg_live (final aggregate aggregate_init
      ([Inl (Next load_req2), Inr (Ch2 (Next load_b2)), Inr (Ch1 (Next load_a2))] :: load_input list))"
  proof -
    have "outs dispatch_step dispatch_init
        ([Inl (Next load_req2), Inr (Ch2 (Next load_b2)), Inr (Ch1 (Next load_a2))] :: load_input list) =
        [Next (load_a2, load_b2)] \<and>
      dispatch_live (final dispatch_step dispatch_init
        ([Inl (Next load_req2), Inr (Ch2 (Next load_b2)), Inr (Ch1 (Next load_a2))] :: load_input list))"
      by (simp add: dispatch_init_def dispatch_live_def load_defs load_req2_def load_a2_def load_b2_def)
    then show ?thesis
      using aggregate_run_dispatch [of "[Inl (Next load_req2), Inr (Ch2 (Next load_b2)), Inr (Ch1 (Next load_a2))]"]
      by metis
  qed
  have h2: "\<forall>c\<in>set ([Ch2 (Next load_b), Ch2 (Next load_b2), Ch1 (Next load_a)] :: load_chan list).
              chan_next c \<and> \<not> fail_match load_req c"
    by simp
  have h3: "match1 load_req ([Ch2 (Next load_b), Ch2 (Next load_b2), Ch1 (Next load_a)] :: load_chan list) = Some load_a"
    by (simp add: load_defs)
  have h4: "match2 load_req ([Ch2 (Next load_b), Ch2 (Next load_b2), Ch1 (Next load_a)] :: load_chan list) = Some load_b"
    by (simp add: load_defs)
  show ?thesis using aggregate_sequential_requests [OF conjunct2 [OF pre] h2 h3 h4] pre by simp
qed

end
