(* ===== verification/Spec2Isabelle.thy ===== *)
theory Spec2Isabelle
  imports Aggregate
begin

text \<open>
  \<^bold>\<open>A verification of the correlating aggregate operator of TradeMe/ngrx.\<close>

  \<^emph>\<open>The program.\<close> \<open>src/src/aggregate/aggregate.ts\<close> exports
  \<open>aggregate(action1$, action2$, failAction$)\<close>, an RxJS 5.5 operator for ngrx effects.
  Applied to a stream of request actions it answers each request with the pair of the
  first response on \<open>action1$\<close> and the first response on \<open>action2$\<close> that correlate
  with it, or fails with the \<open>error\<close> of the first correlated failure on
  \<open>failAction$\<close>. Its parts, in the order of the file:
  \<^item> the action types \<open>AggregatableAction\<close>, \<open>FailActionForAggregation\<close>,
    \<open>CorrelationParams\<close> (lines 9--11);
  \<^item> the correlation predicate \<open>filterAction\<close> (lines 23--26);
  \<^item> the matching window \<open>getAggregatedActions(sourceAction)\<close> (lines 28--56): the
    pipelines \<open>a1$\<close>, \<open>a2$\<close> (\<open>filter\<close>, \<open>first\<close>) and \<open>f$\<close> (\<open>filter\<close>, \<open>first\<close>,
    \<open>switchMap\<close> to \<open>_throw(b.error)\<close>), combined as
    \<open>race(forkJoin([a1$, a2$]), f$)\<close>;
  \<^item> the dispatch \<open>source.pipe(switchMap(sourceAction => getAggregatedActions(sourceAction)))\<close>
    (lines 58--60).
  The parts interact only through RxJS subscriptions: a window subscribes to the three
  shared response streams when its request arrives and is unsubscribed by the dispatch.

  \<^emph>\<open>The model.\<close> An observable is a sequence of notifications (\<open>Prelude.ntf\<close>:
  \<open>Next\<close>, \<open>Error\<close>, \<open>Complete\<close>); a subscriber is a transducer from its state and
  one input notification to its new state and the notifications it emits, in order
  (\<open>Prelude.transducer\<close>, run over an input list by \<open>Prelude.run\<close>). The interleaving
  of the request stream and the three response streams is the order of the input list,
  so every scheduling of the streams is covered; the streams are hot: a window sees only
  what arrives after it was created.
  \<^item> \<open>Prelude\<close>: notifications, the Observable grammar \<open>wf_ntfs\<close>, transducers with
    \<open>run\<close>, \<open>pipe\<close> (\<open>source.pipe(f, g)\<close>) and \<open>lmap\<close> (routing into one port), and
    \<open>simulates\<close>, the refinement relation between two transducers, with its run lemma
    \<open>run_simulation\<close>.
  \<^item> \<open>Actions\<close>: the action types as extensible records (an optional property is an
    option, \<open>None\<close> being \<open>undefined\<close>) and \<open>filterAction\<close> with JavaScript's
    short-circuit \<open>&&\<close> and \<open>===\<close>.
  \<^item> \<open>Rx\<close>: the RxJS library operators the code calls, each after its subscriber class:
    \<open>filter_op\<close>, \<open>first_op\<close>, \<open>forkJoin_op\<close>, \<open>race_op\<close>, \<open>switchMap_op\<close>,
    \<open>throwError\<close>, and \<open>subscriber\<close>, the \<open>isStopped\<close> guard of the \<open>Subscriber\<close> base
    class. The library is not part of the repository; these definitions are modelled
    from its documented behaviour. Generic lemmas: a guarded subscriber's output obeys
    the Observable grammar and it is silent after a terminal notification;
    \<open>subscriber\<close> and \<open>switchMap_op\<close> preserve a simulation of what they wrap.
  \<^item> \<open>Window\<close>: the window state \<open>window\<close> (the captured request and the subscriber
    states of the operators), \<open>window_init\<close>, \<open>getAggregatedActions\<close> and
    \<open>window_step\<close>, the composition \<open>race(forkJoin([a1$, a2$]), f$)\<close> on one input of
    \<open>action1$\<close> (\<open>Ch1\<close>), \<open>action2$\<close> (\<open>Ch2\<close>) or \<open>failAction$\<close> (\<open>ChF\<close>). Its
    contract \<open>join_spec\<close> is the abstract window of the specification: open with the
    first correlated value of each success stream, or resolved. \<open>window_inv\<close> and
    \<open>window_abs\<close> relate the two; \<open>window_refines\<close> is the refinement.
  \<^item> \<open>Aggregate\<close>: \<open>aggregate\<close>, the switchMap dispatch over windows, with two
    contracts. \<open>aggregate_spec\<close> is the same switchMap over \<open>join_spec\<close>: the code
    refines it through the window's refinement and the generic switchMap lemma
    (\<open>aggregate_run_spec\<close>). \<open>dispatch_step\<close> is the dispatch written directly as a
    state machine (one open window, of the latest request; how a pair, a failure, a
    source error and a source completion reach the output); \<open>aggregate_spec\<close> is shown
    to simulate it (\<open>aggregate_spec_dispatch\<close>), so the code emits exactly what
    \<open>dispatch_step\<close> emits (\<open>aggregate_implements_dispatch\<close>).
  \<^item> this theory: the header.

  \<^emph>\<open>What is proved.\<close> Refinement of the window and of the dispatch; the join (the
  pair of first correlated responses, in channel order whatever the arrival order) and
  the fail-fast behaviour of a window; that unrelated events never matter; that a window
  has at most one outcome and is silent after it; the exact behaviour of
  \<open>filterAction\<close>; for the dispatch, that the code implements the dispatch state
  machine, that a new request replaces the open window, that a correlated failure ends
  the whole output stream with its error, that completion of the request stream waits
  for the open window, that successive requests that do not overlap are each answered,
  and that every emitted pair correlates with one request. All definitions are total and
  executable (structural recursion only; no loop needs fuel or a bound): the witnesses
  evaluate the scenarios of the specification by \<open>simp\<close> (on the window's code model
  directly, on the dispatch through its proved refinements).

  \<^emph>\<open>Findings.\<close> (1) \<open>switchMap\<close> cancels the window of a request as soon as the next
  request arrives, so overlapping requests are not joined concurrently as the
  specification (sections 4.1, 5, 8) requires: \<open>Aggregate.aggregate_switches\<close>, and
  \<open>Aggregate.aggregate_implements_dispatch_witness\<close> for two overlapping requests of
  which only the later is answered. (2) A correlated failure errors the whole output
  stream (option (b) of section 7), which the code does not document:
  \<open>Aggregate.aggregate_failure_terminates\<close>. (3) \<open>filterAction\<close> matches when both
  sides lack a \<open>correlationId\<close> (\<open>undefined === undefined\<close>), against the
  specification's fail-closed rule: \<open>Actions.filterAction_missing_ids\<close>. (4) A response
  stream that completes before its correlated value fails the window with
  \<open>EmptyError\<close> from \<open>first()\<close>, a case the specification does not cover:
  \<open>Window.window_stream_completion_fails\<close>.

  \<^emph>\<open>Not modelled.\<close> Passing the same observable twice (one event then reaches two
  subscriptions in subscription order); re-entrant dispatch of an output back into the
  streams during a step; cold streams that replay on subscription; exceptions thrown by
  the filter predicate on a \<open>null\<close> action (ngrx never dispatches one); the
  scheduler, whose only effect here is the interleaving already quantified over.

  \<^emph>\<open>Plan for the next sittings.\<close> A characterisation of the dispatch's whole output by
  the positions of requests and correlated events in the trace; operator laws
  (\<open>filter\<close> then \<open>first\<close> as \<open>find\<close>, forkJoin emission order).
\<close>

end
